theory Spec2Isabelle
  imports Main "HOL-Library.Code_Target_Nat"
begin

section \<open>The element type and the effects of its operations\<close>

text \<open>
  The container of \<^verbatim>\<open>vector.h\<close> is generic in its element type \<^verbatim>\<open>T\<close>. The model
  describes \<^verbatim>\<open>T\<close> by the two compile-time traits the code asks for, by the value a
  value-initialised \<^verbatim>\<open>T()\<close> has, by the state a move leaves its source in (for
  \<^verbatim>\<open>int\<close> the identity, for a string the empty string) and by \<^verbatim>\<open>sizeof(T)\<close>, which is
  at least 1. With \<^verbatim>\<open>T\<close> comes the heap it is allocated from: \<open>new_succeeds bytes\<close> says
  whether \<^verbatim>\<open>operator new(bytes)\<close> returns a block; it throws \<^verbatim>\<open>std::bad_alloc\<close> otherwise.

  Every operation of \<^verbatim>\<open>T\<close> that the container invokes is recorded as an event, in
  program order: this is what a counting test double for \<^verbatim>\<open>T\<close> observes.

  Modelling decisions, once for the whole development:
  \<^item> \<^verbatim>\<open>size_t\<close> values are natural numbers. The two places where wrap-around is
    reachable are written out: \<^verbatim>\<open>--size_\<close> at zero, and the byte count
    \<^verbatim>\<open>n * sizeof(T)\<close> of \<^verbatim>\<open>Allocate\<close>, where \<open>n\<close> may be chosen by the caller. A block of
    \<open>2^63\<close> constructed objects cannot exist (no implementation allocates more than
    \<^verbatim>\<open>PTRDIFF_MAX\<close> bytes), so \<^verbatim>\<open>size_\<close> stays below \<open>2^63\<close> and \<^verbatim>\<open>size_ * 2\<close> does not
    wrap in a state the program can reach.
  \<^item> The operations of \<^verbatim>\<open>T\<close> return: the model describes calls that no constructor or
    assignment of \<^verbatim>\<open>T\<close> cuts short by an exception.
  \<^item> A failed \<^verbatim>\<open>assert\<close>, a \<^verbatim>\<open>std::bad_alloc\<close> and a violated precondition of the
    language or the standard library (a read of raw memory, an access outside the block,
    an inverted iterator range) are results of the model, \<open>Inl\<close> of an \<open>error\<close>.
  \<^item> An iterator \<^verbatim>\<open>T*\<close> is its offset from the start of the block.
\<close>

datatype error = AssertionFailed | UndefinedBehaviour | BadAlloc

datatype event =
    ValueConstructed | ArgsConstructed | CopyConstructed | MoveConstructed
  | CopyAssigned | MoveAssigned | Destroyed

record 'a elem_type =
  is_nothrow_move_constructible :: bool
  is_copy_constructible :: bool
  value_init :: 'a
  moved_from :: "'a \<Rightarrow> 'a"
  sizeof_T :: nat
  new_succeeds :: "nat \<Rightarrow> bool"

text \<open>What \<^verbatim>\<open>T(std::forward<Args>(args)...)\<close> is called with: a \<^verbatim>\<open>const T&\<close> (copy
  constructor), a \<^verbatim>\<open>T&&\<close> (move constructor) or other arguments (some other
  constructor); in each case the value the new object gets.\<close>

datatype 'a init = CopyOf 'a | MoveOf 'a | FromArgs 'a

fun init_value :: "'a init \<Rightarrow> 'a" where
  "init_value (CopyOf x) = x"
| "init_value (MoveOf x) = x"
| "init_value (FromArgs x) = x"

fun init_event :: "'a init \<Rightarrow> event" where
  "init_event (CopyOf x) = CopyConstructed"
| "init_event (MoveOf x) = MoveConstructed"
| "init_event (FromArgs x) = ArgsConstructed"

type_synonym 'r outcome = "error + 'r \<times> event list"

definition ok :: "'r \<Rightarrow> 'r outcome" where
  "ok r = Inr (r, [])"

definition and_then :: "'r outcome \<Rightarrow> ('r \<Rightarrow> 's outcome) \<Rightarrow> 's outcome" where
  "and_then m f =
     (case m of
        Inl e \<Rightarrow> Inl e
      | Inr (r, es) \<Rightarrow>
          (case f r of Inl e \<Rightarrow> Inl e | Inr (s, es') \<Rightarrow> Inr (s, es @ es')))"

section \<open>Blocks of raw memory and the operations of \<^verbatim>\<open>T\<close> on their slots\<close>

text \<open>A block is the list of its slots: \<open>None\<close> is raw memory, \<open>Some x\<close> a live object.\<close>

type_synonym 'a block = "'a option list"

definition load :: "'a block \<Rightarrow> nat \<Rightarrow> 'a outcome" where
  "load b i =
     (if i < length b
      then (case b ! i of Some x \<Rightarrow> ok x | None \<Rightarrow> Inl UndefinedBehaviour)
      else Inl UndefinedBehaviour)"

definition construct_at :: "'a block \<Rightarrow> nat \<Rightarrow> 'a init \<Rightarrow> 'a block outcome" where
  "construct_at b i a =
     (if i < length b then Inr (b[i := Some (init_value a)], [init_event a])
      else Inl UndefinedBehaviour)"

definition value_construct_at :: "'a elem_type \<Rightarrow> 'a block \<Rightarrow> nat \<Rightarrow> 'a block outcome" where
  "value_construct_at et b i =
     (if i < length b then Inr (b[i := Some (value_init et)], [ValueConstructed])
      else Inl UndefinedBehaviour)"

definition copy_construct ::
  "'a block \<Rightarrow> nat \<Rightarrow> 'a block \<Rightarrow> nat \<Rightarrow> 'a block outcome" where
  "copy_construct src i dst j =
     and_then (load src i) (\<lambda>x.
       if j < length dst then Inr (dst[j := Some x], [CopyConstructed])
       else Inl UndefinedBehaviour)"

definition move_construct ::
  "'a elem_type \<Rightarrow> 'a block \<Rightarrow> nat \<Rightarrow> 'a block \<Rightarrow> nat \<Rightarrow> ('a block \<times> 'a block) outcome" where
  "move_construct et src i dst j =
     and_then (load src i) (\<lambda>x.
       if j < length dst
       then Inr ((src[i := Some (moved_from et x)], dst[j := Some x]), [MoveConstructed])
       else Inl UndefinedBehaviour)"

definition move_construct_within ::
  "'a elem_type \<Rightarrow> 'a block \<Rightarrow> nat \<Rightarrow> nat \<Rightarrow> 'a block outcome" where
  "move_construct_within et b i j =
     and_then (load b i) (\<lambda>x.
       if j < length b
       then Inr (b[i := Some (moved_from et x), j := Some x], [MoveConstructed])
       else Inl UndefinedBehaviour)"

definition copy_assign ::
  "'a block \<Rightarrow> nat \<Rightarrow> 'a block \<Rightarrow> nat \<Rightarrow> 'a block outcome" where
  "copy_assign src i dst j =
     and_then (load src i) (\<lambda>x.
     and_then (load dst j) (\<lambda>old.
       Inr (dst[j := Some x], [CopyAssigned])))"

definition move_assign_within ::
  "'a elem_type \<Rightarrow> 'a block \<Rightarrow> nat \<Rightarrow> nat \<Rightarrow> 'a block outcome" where
  "move_assign_within et b i j =
     and_then (load b i) (\<lambda>x.
     and_then (load b j) (\<lambda>old.
       Inr (b[i := Some (moved_from et x), j := Some x], [MoveAssigned])))"

definition move_assign_value :: "'a block \<Rightarrow> nat \<Rightarrow> 'a \<Rightarrow> 'a block outcome" where
  "move_assign_value b j x =
     and_then (load b j) (\<lambda>old. Inr (b[j := Some x], [MoveAssigned]))"

definition destroy_at :: "'a block \<Rightarrow> nat \<Rightarrow> 'a block outcome" where
  "destroy_at b i =
     and_then (load b i) (\<lambda>old. Inr (b[i := None], [Destroyed]))"

subsection \<open>The loops of the standard library\<close>

fun uninitialized_value_construct_n ::
  "'a elem_type \<Rightarrow> 'a block \<Rightarrow> nat \<Rightarrow> nat \<Rightarrow> 'a block outcome" where
  "uninitialized_value_construct_n et b first 0 = ok b"
| "uninitialized_value_construct_n et b first (Suc n) =
     and_then (value_construct_at et b first) (\<lambda>b'.
       uninitialized_value_construct_n et b' (Suc first) n)"

fun uninitialized_copy_n ::
  "'a block \<Rightarrow> nat \<Rightarrow> nat \<Rightarrow> 'a block \<Rightarrow> nat \<Rightarrow> 'a block outcome" where
  "uninitialized_copy_n src first 0 dst d_first = ok dst"
| "uninitialized_copy_n src first (Suc n) dst d_first =
     and_then (copy_construct src first dst d_first) (\<lambda>dst'.
       uninitialized_copy_n src (Suc first) n dst' (Suc d_first))"

fun uninitialized_move_n ::
  "'a elem_type \<Rightarrow> 'a block \<Rightarrow> nat \<Rightarrow> nat \<Rightarrow> 'a block \<Rightarrow> nat
     \<Rightarrow> ('a block \<times> 'a block) outcome" where
  "uninitialized_move_n et src first 0 dst d_first = ok (src, dst)"
| "uninitialized_move_n et src first (Suc n) dst d_first =
     and_then (move_construct et src first dst d_first) (\<lambda>(src', dst').
       uninitialized_move_n et src' (Suc first) n dst' (Suc d_first))"

fun destroy_n :: "'a block \<Rightarrow> nat \<Rightarrow> nat \<Rightarrow> 'a block outcome" where
  "destroy_n b first 0 = ok b"
| "destroy_n b first (Suc n) =
     and_then (destroy_at b first) (\<lambda>b'. destroy_n b' (Suc first) n)"

text \<open>\<^verbatim>\<open>std::move(first, last, d_first)\<close> assigns front to back and returns the end of
  the destination range; \<^verbatim>\<open>std::move_backward(first, last, d_last)\<close> assigns back to
  front. Both require \<open>[first, last)\<close> to be a range.\<close>

fun move_n :: "'a elem_type \<Rightarrow> 'a block \<Rightarrow> nat \<Rightarrow> nat \<Rightarrow> nat \<Rightarrow> 'a block outcome" where
  "move_n et b first 0 d_first = ok b"
| "move_n et b first (Suc n) d_first =
     and_then (move_assign_within et b first d_first) (\<lambda>b'.
       move_n et b' (Suc first) n (Suc d_first))"

definition std_move ::
  "'a elem_type \<Rightarrow> 'a block \<Rightarrow> nat \<Rightarrow> nat \<Rightarrow> nat \<Rightarrow> ('a block \<times> nat) outcome" where
  "std_move et b first lst d_first =
     (if first \<le> lst
      then and_then (move_n et b first (lst - first) d_first) (\<lambda>b'.
             ok (b', d_first + (lst - first)))
      else Inl UndefinedBehaviour)"

fun move_backward_n ::
  "'a elem_type \<Rightarrow> 'a block \<Rightarrow> nat \<Rightarrow> nat \<Rightarrow> nat \<Rightarrow> 'a block outcome" where
  "move_backward_n et b lst 0 d_last = ok b"
| "move_backward_n et b lst (Suc n) d_last =
     (if lst = 0 \<or> d_last = 0 then Inl UndefinedBehaviour
      else and_then (move_assign_within et b (lst - 1) (d_last - 1)) (\<lambda>b'.
             move_backward_n et b' (lst - 1) n (d_last - 1)))"

definition move_backward ::
  "'a elem_type \<Rightarrow> 'a block \<Rightarrow> nat \<Rightarrow> nat \<Rightarrow> nat \<Rightarrow> 'a block outcome" where
  "move_backward et b first lst d_last =
     (if first \<le> lst then move_backward_n et b lst (lst - first) d_last
      else Inl UndefinedBehaviour)"

subsection \<open>Unsigned arithmetic\<close>

definition SIZE_MAX :: nat where
  "SIZE_MAX = 2 ^ 64 - 1"

text \<open>Subtraction of \<^verbatim>\<open>size_t\<close> values, which wraps below zero.\<close>

definition size_t_sub :: "nat \<Rightarrow> nat \<Rightarrow> nat" where
  "size_t_sub a b = (if b \<le> a then a - b else a + (SIZE_MAX + 1) - b)"

section \<open>\<^verbatim>\<open>RawMemory<T>\<close>\<close>

text \<open>The members \<^verbatim>\<open>buffer_\<close>, \<^verbatim>\<open>capacity_\<close>, \<^verbatim>\<open>data_\<close> and \<^verbatim>\<open>size_\<close> are the fields
  \<open>buffer_m\<close>, \<open>capacity_m\<close>, \<open>data_m\<close> and \<open>size_m\<close>; \<open>buffer_m\<close> holds the block that
  \<^verbatim>\<open>buffer_\<close> points to, which the object owns exclusively.\<close>

record 'a RawMemory =
  buffer_m :: "'a block"
  capacity_m :: nat

text \<open>\<^verbatim>\<open>operator new(bytes)\<close> throws or returns a block of \<open>bytes\<close> bytes, which has room
  for \<open>bytes div sizeof(T)\<close> objects. \<^verbatim>\<open>Allocate(n)\<close> asks for \<^verbatim>\<open>n * sizeof(T)\<close> bytes, a
  product of \<^verbatim>\<open>size_t\<close> values that wraps; for \<open>n = 0\<close> it returns the null pointer.\<close>

definition operator_new :: "'a elem_type \<Rightarrow> nat \<Rightarrow> 'a block outcome" where
  "operator_new et bytes =
     (if new_succeeds et bytes then ok (replicate (bytes div sizeof_T et) None)
      else Inl BadAlloc)"

definition Allocate :: "'a elem_type \<Rightarrow> nat \<Rightarrow> 'a block outcome" where
  "Allocate et n =
     (if n \<noteq> 0 then operator_new et ((n * sizeof_T et) mod (SIZE_MAX + 1)) else ok [])"

definition RawMemory_new :: "'a elem_type \<Rightarrow> nat \<Rightarrow> 'a RawMemory outcome" where
  "RawMemory_new et capacity =
     and_then (Allocate et capacity) (\<lambda>b. ok \<lparr>buffer_m = b, capacity_m = capacity\<rparr>)"

text \<open>The request for \<open>n\<close> objects is granted in full: the byte count is a \<^verbatim>\<open>size_t\<close> value
  and \<^verbatim>\<open>operator new\<close> returns (no request is made for \<open>n = 0\<close>).\<close>

definition allocates :: "'a elem_type \<Rightarrow> nat \<Rightarrow> bool" where
  "allocates et n \<longleftrightarrow>
     n = 0 \<or>
     (0 < sizeof_T et \<and> n * sizeof_T et \<le> SIZE_MAX \<and> new_succeeds et (n * sizeof_T et))"

text \<open>\<^verbatim>\<open>operator+\<close> and \<^verbatim>\<open>operator[]\<close> of \<^verbatim>\<open>RawMemory\<close>: the slot's offset, behind
  the assertion of the source.\<close>

definition RawMemory_plus :: "'a RawMemory \<Rightarrow> nat \<Rightarrow> nat outcome" where
  "RawMemory_plus m offset =
     (if offset \<le> capacity_m m then ok offset else Inl AssertionFailed)"

definition RawMemory_index :: "'a RawMemory \<Rightarrow> nat \<Rightarrow> nat outcome" where
  "RawMemory_index m index =
     (if index < capacity_m m then ok index else Inl AssertionFailed)"

definition RawMemory_Swap :: "'a RawMemory \<Rightarrow> 'a RawMemory \<Rightarrow> 'a RawMemory \<times> 'a RawMemory" where
  "RawMemory_Swap this other =
     (this\<lparr>buffer_m := buffer_m other, capacity_m := capacity_m other\<rparr>,
      other\<lparr>buffer_m := buffer_m this, capacity_m := capacity_m this\<rparr>)"

section \<open>\<^verbatim>\<open>Vector<T>\<close>\<close>

record 'a Vector =
  data_m :: "'a RawMemory"
  size_m :: nat

definition Size :: "'a Vector \<Rightarrow> nat" where
  "Size v = size_m v"

definition Capacity :: "'a Vector \<Rightarrow> nat" where
  "Capacity v = capacity_m (data_m v)"

definition set_buffer :: "'a Vector \<Rightarrow> 'a block \<Rightarrow> 'a Vector" where
  "set_buffer v b = v\<lparr>data_m := (data_m v)\<lparr>buffer_m := b\<rparr>\<rparr>"

definition begin_it :: "'a Vector \<Rightarrow> nat outcome" where
  "begin_it v = RawMemory_plus (data_m v) 0"

definition end_it :: "'a Vector \<Rightarrow> nat outcome" where
  "end_it v = RawMemory_plus (data_m v) (size_m v)"

text \<open>The default member initialiser \<^verbatim>\<open>data_{0}\<close> is \<^verbatim>\<open>RawMemory(0)\<close>: \<^verbatim>\<open>Allocate(0)\<close>
  returns the null pointer without a call of \<^verbatim>\<open>operator new\<close>, whatever \<^verbatim>\<open>T\<close> is.\<close>

definition Vector_default :: "'a Vector" where
  "Vector_default = \<lparr>data_m = \<lparr>buffer_m = [], capacity_m = 0\<rparr>, size_m = 0\<rparr>"

definition Vector_sized :: "'a elem_type \<Rightarrow> nat \<Rightarrow> 'a Vector outcome" where
  "Vector_sized et sz =
     and_then (RawMemory_new et sz) (\<lambda>d.
       let v = \<lparr>data_m = d, size_m = sz\<rparr> in
       and_then (uninitialized_value_construct_n et (buffer_m (data_m v)) 0 sz) (\<lambda>b.
         ok (set_buffer v b)))"

definition Vector_copy :: "'a elem_type \<Rightarrow> 'a Vector \<Rightarrow> 'a Vector outcome" where
  "Vector_copy et other =
     and_then (RawMemory_new et (size_m other)) (\<lambda>d.
       let v = \<lparr>data_m = d, size_m = size_m other\<rparr> in
       and_then (uninitialized_copy_n (buffer_m (data_m other)) 0 (size_m other)
                   (buffer_m (data_m v)) 0) (\<lambda>b.
         ok (set_buffer v b)))"

text \<open>The destructor: \<^verbatim>\<open>DestroyN(data_.GetAddress(), size_)\<close>, then the block is
  released without any operation of \<^verbatim>\<open>T\<close>.\<close>

definition Vector_destroy :: "'a Vector \<Rightarrow> unit outcome" where
  "Vector_destroy v =
     and_then (destroy_n (buffer_m (data_m v)) 0 (size_m v)) (\<lambda>b. ok ())"

text \<open>\<^verbatim>\<open>operator[]\<close> of the container, read through the reference it returns.\<close>

definition Vector_index :: "'a Vector \<Rightarrow> nat \<Rightarrow> 'a outcome" where
  "Vector_index v index =
     (if index < size_m v
      then and_then (RawMemory_index (data_m v) index) (\<lambda>i. load (buffer_m (data_m v)) i)
      else Inl AssertionFailed)"

definition Reserve :: "'a elem_type \<Rightarrow> 'a Vector \<Rightarrow> nat \<Rightarrow> 'a Vector outcome" where
  "Reserve et v new_capacity =
     (if new_capacity \<le> capacity_m (data_m v) then ok v
      else
        and_then (RawMemory_new et new_capacity) (\<lambda>new_data.
        and_then
          (if is_nothrow_move_constructible et \<or> \<not> is_copy_constructible et
           then uninitialized_move_n et (buffer_m (data_m v)) 0 (size_m v) (buffer_m new_data) 0
           else and_then (uninitialized_copy_n (buffer_m (data_m v)) 0 (size_m v)
                            (buffer_m new_data) 0) (\<lambda>nb. ok (buffer_m (data_m v), nb)))
          (\<lambda>(old, nb).
        and_then (destroy_n old 0 (size_m v)) (\<lambda>old'.
          ok (v\<lparr>data_m := new_data\<lparr>buffer_m := nb\<rparr>\<rparr>)))))"

definition Resize :: "'a elem_type \<Rightarrow> 'a Vector \<Rightarrow> nat \<Rightarrow> 'a Vector outcome" where
  "Resize et v new_size =
     (if new_size > size_m v then
        and_then (Reserve et v new_size) (\<lambda>v1.
        and_then (RawMemory_plus (data_m v1) (size_m v1)) (\<lambda>p.
        and_then (uninitialized_value_construct_n et (buffer_m (data_m v1)) p
                    (new_size - size_m v1)) (\<lambda>b.
          ok ((set_buffer v1 b)\<lparr>size_m := new_size\<rparr>))))
      else if new_size < size_m v then
        and_then (RawMemory_plus (data_m v) new_size) (\<lambda>p.
        and_then (destroy_n (buffer_m (data_m v)) p (size_m v - new_size)) (\<lambda>b.
          ok ((set_buffer v b)\<lparr>size_m := new_size\<rparr>)))
      else ok (v\<lparr>size_m := new_size\<rparr>))"

text \<open>\<^verbatim>\<open>EmplaceBack\<close> returns a reference to the new element: here its offset.\<close>

definition EmplaceBack ::
  "'a elem_type \<Rightarrow> 'a Vector \<Rightarrow> 'a init \<Rightarrow> ('a Vector \<times> nat) outcome" where
  "EmplaceBack et v args =
     and_then
       (if size_m v = Capacity v then
          and_then (RawMemory_new et (if size_m v = 0 then 1 else size_m v * 2)) (\<lambda>new_data.
          and_then (RawMemory_plus new_data (size_m v)) (\<lambda>p.
          and_then (construct_at (buffer_m new_data) p args) (\<lambda>nb0.
          and_then
            (if is_nothrow_move_constructible et \<or> \<not> is_copy_constructible et
             then uninitialized_move_n et (buffer_m (data_m v)) 0 (size_m v) nb0 0
             else and_then (uninitialized_copy_n (buffer_m (data_m v)) 0 (size_m v) nb0 0)
                    (\<lambda>nb. ok (buffer_m (data_m v), nb)))
            (\<lambda>(old, nb).
          and_then (destroy_n old 0 (size_m v)) (\<lambda>old'.
            ok (v\<lparr>data_m := new_data\<lparr>buffer_m := nb\<rparr>\<rparr>))))))
        else
          and_then (RawMemory_plus (data_m v) (size_m v)) (\<lambda>p.
          and_then (construct_at (buffer_m (data_m v)) p args) (\<lambda>b.
            ok (set_buffer v b))))
       (\<lambda>v1.
          let v2 = v1\<lparr>size_m := size_m v1 + 1\<rparr> in
          and_then (RawMemory_index (data_m v2) (size_m v2 - 1)) (\<lambda>r. ok (v2, r)))"

definition PushBack :: "'a elem_type \<Rightarrow> 'a Vector \<Rightarrow> 'a \<Rightarrow> 'a Vector outcome" where
  "PushBack et v val = and_then (EmplaceBack et v (CopyOf val)) (\<lambda>(v', r). ok v')"

definition PushBack_rvalue :: "'a elem_type \<Rightarrow> 'a Vector \<Rightarrow> 'a \<Rightarrow> 'a Vector outcome" where
  "PushBack_rvalue et v val = and_then (EmplaceBack et v (MoveOf val)) (\<lambda>(v', r). ok v')"

definition Erase ::
  "'a elem_type \<Rightarrow> 'a Vector \<Rightarrow> nat \<Rightarrow> ('a Vector \<times> nat) outcome" where
  "Erase et v pos =
     and_then (begin_it v) (\<lambda>cb.
     let dist = pos - cb in
     and_then (begin_it v) (\<lambda>b0.
     let cur = b0 + dist in
     and_then (end_it v) (\<lambda>e.
     and_then (std_move et (buffer_m (data_m v)) (cur + 1) e cur) (\<lambda>(b1, r).
     and_then (destroy_at b1 r) (\<lambda>b2.
       ok ((set_buffer v b2)\<lparr>size_m := size_t_sub (size_m v) 1\<rparr>, cur))))))"

definition Emplace ::
  "'a elem_type \<Rightarrow> 'a Vector \<Rightarrow> nat \<Rightarrow> 'a init \<Rightarrow> ('a Vector \<times> nat) outcome" where
  "Emplace et v pos args =
     and_then (begin_it v) (\<lambda>cb.
     let dist = pos - cb in
     and_then (begin_it v) (\<lambda>b0.
     let it = b0 + dist in
     and_then
       (if size_m v = capacity_m (data_m v) then
          and_then (RawMemory_new et (if size_m v = 0 then 1 else size_m v * 2)) (\<lambda>new_data.
          and_then (construct_at (buffer_m new_data) dist args) (\<lambda>nb0.
          and_then
            (if is_nothrow_move_constructible et \<or> \<not> is_copy_constructible et
             then
               and_then (uninitialized_move_n et (buffer_m (data_m v)) 0 dist nb0 0)
                 (\<lambda>(old1, nb1).
                   uninitialized_move_n et old1 it (size_t_sub (size_m v) dist) nb1 (dist + 1))
             else
               and_then (uninitialized_copy_n (buffer_m (data_m v)) 0 dist nb0 0) (\<lambda>nb1.
               and_then (uninitialized_copy_n (buffer_m (data_m v)) it
                           (size_t_sub (size_m v) dist) nb1 (dist + 1)) (\<lambda>nb2.
                 ok (buffer_m (data_m v), nb2))))
            (\<lambda>(old, nb).
          and_then (destroy_n old 0 (size_m v)) (\<lambda>old'.
            ok (v\<lparr>data_m := new_data\<lparr>buffer_m := nb\<rparr>\<rparr>)))))
        else if size_m v \<noteq> 0 then
          and_then (Inr (init_value args, [init_event args])) (\<lambda>temp.
          and_then
            (if size_m v \<noteq> 0 then
               and_then (end_it v) (\<lambda>e.
               and_then (RawMemory_index (data_m v) (size_m v - 1)) (\<lambda>l.
                 move_construct_within et (buffer_m (data_m v)) l e))
             else ok (buffer_m (data_m v)))
            (\<lambda>b1.
          and_then (end_it v) (\<lambda>e.
          and_then (move_backward et b1 it (e - 1) e) (\<lambda>b2.
          and_then (move_assign_value b2 it temp) (\<lambda>b3.
          and_then (Inr ((), [Destroyed])) (\<lambda>u.
            ok (set_buffer v b3)))))))
        else
          and_then (construct_at (buffer_m (data_m v)) it args) (\<lambda>b.
            ok (set_buffer v b)))
       (\<lambda>v1.
          let v2 = v1\<lparr>size_m := size_m v1 + 1\<rparr> in
          and_then (RawMemory_plus (data_m v2) dist) (\<lambda>r. ok (v2, r)))))"

definition Insert ::
  "'a elem_type \<Rightarrow> 'a Vector \<Rightarrow> nat \<Rightarrow> 'a \<Rightarrow> ('a Vector \<times> nat) outcome" where
  "Insert et v pos val = Emplace et v pos (CopyOf val)"

definition Insert_rvalue ::
  "'a elem_type \<Rightarrow> 'a Vector \<Rightarrow> nat \<Rightarrow> 'a \<Rightarrow> ('a Vector \<times> nat) outcome" where
  "Insert_rvalue et v pos val = Emplace et v pos (MoveOf val)"

definition PopBack :: "'a Vector \<Rightarrow> 'a Vector outcome" where
  "PopBack v =
     (let v1 = v\<lparr>size_m := size_t_sub (size_m v) 1\<rparr> in
      and_then (RawMemory_plus (data_m v1) (size_m v1)) (\<lambda>p.
      and_then (destroy_at (buffer_m (data_m v1)) p) (\<lambda>b.
        ok (set_buffer v1 b))))"

subsection \<open>Operations on two containers\<close>

text \<open>On two distinct objects, \<open>this\<close> and the argument; the pair returned is
  (\<open>this\<close>, argument) afterwards.\<close>

definition RawMemory_assign_move ::
  "'a RawMemory \<Rightarrow> 'a RawMemory \<Rightarrow> 'a RawMemory \<times> 'a RawMemory" where
  "RawMemory_assign_move this rhs =
     (this\<lparr>capacity_m := capacity_m rhs, buffer_m := buffer_m rhs\<rparr>,
      rhs\<lparr>capacity_m := capacity_m this, buffer_m := buffer_m this\<rparr>)"

definition Swap :: "'a Vector \<Rightarrow> 'a Vector \<Rightarrow> 'a Vector \<times> 'a Vector" where
  "Swap this other =
     (let (d, od) = RawMemory_Swap (data_m this) (data_m other) in
      (\<lparr>data_m = d, size_m = size_m other\<rparr>, \<lparr>data_m = od, size_m = size_m this\<rparr>))"

definition assign_move :: "'a Vector \<Rightarrow> 'a Vector \<Rightarrow> 'a Vector \<times> 'a Vector" where
  "assign_move this rhs =
     (let (d, rd) = RawMemory_assign_move (data_m this) (data_m rhs) in
      (\<lparr>data_m = d, size_m = size_m rhs\<rparr>, \<lparr>data_m = rd, size_m = size_m this\<rparr>))"

text \<open>The move constructor starts from the default member initialisers.\<close>

definition Vector_move :: "'a Vector \<Rightarrow> 'a Vector \<times> 'a Vector" where
  "Vector_move other = assign_move Vector_default other"

text \<open>The loops of the copy assignment: \<^verbatim>\<open>data_[i] = rhs[i]\<close> for the \<open>n\<close> indices
  from \<open>i\<close> on; \<^verbatim>\<open>rhs[i]\<close> asserts \<open>i < rhs.size_\<close>.\<close>

fun assign_elements ::
  "'a Vector \<Rightarrow> 'a RawMemory \<Rightarrow> nat \<Rightarrow> nat \<Rightarrow> 'a block outcome" where
  "assign_elements rhs d i 0 = ok (buffer_m d)"
| "assign_elements rhs d i (Suc n) =
     and_then (RawMemory_index d i) (\<lambda>j.
     (if i < size_m rhs
      then and_then (RawMemory_index (data_m rhs) i) (\<lambda>k.
           and_then (copy_assign (buffer_m (data_m rhs)) k (buffer_m d) j) (\<lambda>b.
             assign_elements rhs (d\<lparr>buffer_m := b\<rparr>) (Suc i) n))
      else Inl AssertionFailed))"

section \<open>Objects at addresses\<close>

text \<open>Where a member function takes another container by reference, the two may be
  the same object. A store maps the address of each container object to its state.\<close>

type_synonym 'a store = "nat \<Rightarrow> 'a Vector option"

definition Vector_Swap :: "'a store \<Rightarrow> nat \<Rightarrow> nat \<Rightarrow> 'a store outcome" where
  "Vector_Swap st this other =
     (case (st this, st other) of
        (Some v, Some w) \<Rightarrow>
          let (v', w') = Swap v w in ok (st(other \<mapsto> w', this \<mapsto> v'))
      | _ \<Rightarrow> Inl UndefinedBehaviour)"

definition Vector_assign_move :: "'a store \<Rightarrow> nat \<Rightarrow> nat \<Rightarrow> 'a store outcome" where
  "Vector_assign_move st this rhs =
     (case (st this, st rhs) of
        (Some v, Some r) \<Rightarrow>
          let (v', r') = assign_move v r in ok (st(rhs \<mapsto> r', this \<mapsto> v'))
      | _ \<Rightarrow> Inl UndefinedBehaviour)"

definition Vector_move_construct :: "'a store \<Rightarrow> nat \<Rightarrow> nat \<Rightarrow> 'a store outcome" where
  "Vector_move_construct st this other =
     (case (st this, st other) of
        (None, Some w) \<Rightarrow>
          let (v', w') = Vector_move w in ok (st(other \<mapsto> w', this \<mapsto> v'))
      | _ \<Rightarrow> Inl UndefinedBehaviour)"

definition Vector_copy_construct ::
  "'a elem_type \<Rightarrow> 'a store \<Rightarrow> nat \<Rightarrow> nat \<Rightarrow> 'a store outcome" where
  "Vector_copy_construct et st this other =
     (case (st this, st other) of
        (None, Some w) \<Rightarrow> and_then (Vector_copy et w) (\<lambda>v. ok (st(this \<mapsto> v)))
      | _ \<Rightarrow> Inl UndefinedBehaviour)"

definition Vector_assign_copy ::
  "'a elem_type \<Rightarrow> 'a store \<Rightarrow> nat \<Rightarrow> nat \<Rightarrow> 'a store outcome" where
  "Vector_assign_copy et st this rhs =
     (if this \<noteq> rhs then
        (case (st this, st rhs) of
           (Some v, Some r) \<Rightarrow>
             and_then
               (if size_m r > capacity_m (data_m v) then
                  and_then (Vector_copy et r) (\<lambda>copy_rhs.
                    let (v', copy_rhs') = Swap v copy_rhs in
                    and_then (Vector_destroy copy_rhs') (\<lambda>u. ok v'))
                else
                  and_then
                    (if size_m r < size_m v then
                       and_then (assign_elements r (data_m v) 0 (size_m r)) (\<lambda>b.
                       and_then (RawMemory_plus (data_m v) (size_m r)) (\<lambda>p.
                         destroy_n b p (size_m v - size_m r)))
                     else
                       and_then (assign_elements r (data_m v) 0 (size_m v)) (\<lambda>b.
                       and_then (RawMemory_plus (data_m r) (size_m v)) (\<lambda>p.
                       and_then (RawMemory_plus (data_m v) (size_m v)) (\<lambda>q.
                         uninitialized_copy_n (buffer_m (data_m r)) p
                           (size_m r - size_m v) b q))))
                    (\<lambda>b. ok ((set_buffer v b)\<lparr>size_m := size_m r\<rparr>)))
               (\<lambda>v'. ok (st(this \<mapsto> v')))
         | _ \<Rightarrow> Inl UndefinedBehaviour)
      else ok st)"

section \<open>The class invariant and the element sequence\<close>

text \<open>Slots \<open>[0, size)\<close> hold live objects, slots \<open>[size, capacity)\<close> are raw memory, and
  the block has \<open>capacity\<close> slots.\<close>

definition wf :: "'a Vector \<Rightarrow> bool" where
  "wf v \<longleftrightarrow>
     length (buffer_m (data_m v)) = capacity_m (data_m v) \<and>
     size_m v \<le> capacity_m (data_m v) \<and>
     list_all (\<lambda>s. s \<noteq> None) (take (size_m v) (buffer_m (data_m v))) \<and>
     list_all (\<lambda>s. s = None) (drop (size_m v) (buffer_m (data_m v)))"

definition elements :: "'a Vector \<Rightarrow> 'a list" where
  "elements v = map the (take (size_m v) (buffer_m (data_m v)))"

section \<open>Abstraction: a container as its element sequence and spare capacity\<close>

text \<open>The container in which \<open>xs\<close> are the live elements and \<open>k\<close> slots are free.\<close>

definition mk :: "'a list \<Rightarrow> nat \<Rightarrow> 'a Vector" where
  "mk xs k =
     \<lparr>data_m = \<lparr>buffer_m = map Some xs @ replicate k None, capacity_m = length xs + k\<rparr>,
      size_m = length xs\<rparr>"

text \<open>The constructor and the state of the old block that the \<^verbatim>\<open>if constexpr\<close> of a
  relocation selects.\<close>

definition relocation_event :: "'a elem_type \<Rightarrow> event" where
  "relocation_event et =
     (if is_nothrow_move_constructible et \<or> \<not> is_copy_constructible et
      then MoveConstructed else CopyConstructed)"

definition relocation_source :: "'a elem_type \<Rightarrow> 'a list \<Rightarrow> 'a list" where
  "relocation_source et xs =
     (if is_nothrow_move_constructible et \<or> \<not> is_copy_constructible et
      then map (moved_from et) xs else xs)"

subsection \<open>A client that pushes a sequence of values\<close>

text \<open>\<^verbatim>\<open>PushBack\<close> is overloaded for \<^verbatim>\<open>const T&\<close> and \<^verbatim>\<open>T&&\<close>.\<close>

datatype 'a pushed = Lvalue 'a | Rvalue 'a

fun pushed_value :: "'a pushed \<Rightarrow> 'a" where
  "pushed_value (Lvalue x) = x"
| "pushed_value (Rvalue x) = x"

fun push_back :: "'a elem_type \<Rightarrow> 'a Vector \<Rightarrow> 'a pushed \<Rightarrow> 'a Vector outcome" where
  "push_back et v (Lvalue x) = PushBack et v x"
| "push_back et v (Rvalue x) = PushBack_rvalue et v x"

fun push_all :: "'a elem_type \<Rightarrow> 'a Vector \<Rightarrow> 'a pushed list \<Rightarrow> 'a Vector outcome" where
  "push_all et v [] = ok v"
| "push_all et v (p # ps) = and_then (push_back et v p) (\<lambda>v'. push_all et v' ps)"

text \<open>A client that inserts a value and at once erases at the returned position.\<close>

definition insert_then_erase ::
  "'a elem_type \<Rightarrow> 'a Vector \<Rightarrow> nat \<Rightarrow> 'a \<Rightarrow> ('a Vector \<times> nat) outcome" where
  "insert_then_erase et v pos val =
     and_then (Insert et v pos val) (\<lambda>(v1, p). Erase et v1 p)"

subsection \<open>Concrete element types and containers\<close>

text \<open>A type with a non-throwing move constructor whose moved-from state is \<open>0\<close>, and a
  copyable type whose move constructor may throw; both of 8 bytes, on a heap that grants
  requests of up to 4096 bytes.\<close>

definition movable :: "nat elem_type" where
  "movable = \<lparr>is_nothrow_move_constructible = True, is_copy_constructible = True,
     value_init = 0, moved_from = (\<lambda>x. 0), sizeof_T = 8,
     new_succeeds = (\<lambda>bytes. bytes \<le> 4096)\<rparr>"

definition copy_only :: "nat elem_type" where
  "copy_only = \<lparr>is_nothrow_move_constructible = False, is_copy_constructible = True,
     value_init = 0, moved_from = (\<lambda>x. 0), sizeof_T = 8,
     new_succeeds = (\<lambda>bytes. bytes \<le> 4096)\<rparr>"

text \<open>Elements \<open>[7, 8]\<close> in a block of three slots, and \<open>[7, 8]\<close> in a full block.\<close>

definition spare_vector :: "nat Vector" where
  "spare_vector =
     \<lparr>data_m = \<lparr>buffer_m = [Some 7, Some 8, None], capacity_m = 3\<rparr>, size_m = 2\<rparr>"

definition full_vector :: "nat Vector" where
  "full_vector =
     \<lparr>data_m = \<lparr>buffer_m = [Some 7, Some 8], capacity_m = 2\<rparr>, size_m = 2\<rparr>"

text \<open>Element \<open>[5]\<close> in a full block of one slot, and a store of two objects.\<close>

definition short_vector :: "nat Vector" where
  "short_vector = \<lparr>data_m = \<lparr>buffer_m = [Some 5], capacity_m = 1\<rparr>, size_m = 1\<rparr>"

definition two_vectors :: "nat store" where
  "two_vectors = (\<lambda>a. None)(0 \<mapsto> short_vector, 1 \<mapsto> full_vector)"

text \<open>The scenario of the specification: three pushes, an insertion at position 1, an
  erasure at position 2 and \<^verbatim>\<open>PopBack\<close>, for a type with a non-throwing move.\<close>

definition scenario :: "nat Vector outcome" where
  "scenario =
     and_then (push_all movable Vector_default [Lvalue 1, Lvalue 2, Lvalue 3]) (\<lambda>v3.
     and_then (Insert movable v3 1 9) (\<lambda>(v4, p).
     and_then (Erase movable v4 2) (\<lambda>(v5, q).
       PopBack v5)))"

section \<open>States that a client can reach\<close>

text \<open>A client starts without objects and calls the public operations, on objects it has;
  a call that fails (an assertion, undefined behaviour, a refused allocation) ends the
  run.\<close>

inductive reachable :: "'a elem_type \<Rightarrow> 'a store \<Rightarrow> bool" for et :: "'a elem_type" where
  no_objects: "reachable et (\<lambda>a. None)"
| constructed_default:
    "reachable et st \<Longrightarrow> st a = None \<Longrightarrow> reachable et (st(a \<mapsto> Vector_default))"
| constructed_sized:
    "reachable et st \<Longrightarrow> st a = None \<Longrightarrow> Vector_sized et n = Inr (v, es) \<Longrightarrow>
     reachable et (st(a \<mapsto> v))"
| constructed_copy:
    "reachable et st \<Longrightarrow> Vector_copy_construct et st a b = Inr (st', es) \<Longrightarrow>
     reachable et st'"
| constructed_move:
    "reachable et st \<Longrightarrow> Vector_move_construct st a b = Inr (st', es) \<Longrightarrow> reachable et st'"
| assigned_copy:
    "reachable et st \<Longrightarrow> Vector_assign_copy et st a b = Inr (st', es) \<Longrightarrow>
     reachable et st'"
| assigned_move:
    "reachable et st \<Longrightarrow> Vector_assign_move st a b = Inr (st', es) \<Longrightarrow> reachable et st'"
| swapped:
    "reachable et st \<Longrightarrow> Vector_Swap st a b = Inr (st', es) \<Longrightarrow> reachable et st'"
| destroyed:
    "reachable et st \<Longrightarrow> st a = Some v \<Longrightarrow> Vector_destroy v = Inr (u, es) \<Longrightarrow>
     reachable et (st(a := None))"
| reserved:
    "reachable et st \<Longrightarrow> st a = Some v \<Longrightarrow> Reserve et v n = Inr (v', es) \<Longrightarrow>
     reachable et (st(a \<mapsto> v'))"
| resized:
    "reachable et st \<Longrightarrow> st a = Some v \<Longrightarrow> Resize et v n = Inr (v', es) \<Longrightarrow>
     reachable et (st(a \<mapsto> v'))"
| pushed_back:
    "reachable et st \<Longrightarrow> st a = Some v \<Longrightarrow> PushBack et v x = Inr (v', es) \<Longrightarrow>
     reachable et (st(a \<mapsto> v'))"
| pushed_back_rvalue:
    "reachable et st \<Longrightarrow> st a = Some v \<Longrightarrow> PushBack_rvalue et v x = Inr (v', es) \<Longrightarrow>
     reachable et (st(a \<mapsto> v'))"
| emplaced_back:
    "reachable et st \<Longrightarrow> st a = Some v \<Longrightarrow> EmplaceBack et v args = Inr ((v', r), es) \<Longrightarrow>
     reachable et (st(a \<mapsto> v'))"
| inserted:
    "reachable et st \<Longrightarrow> st a = Some v \<Longrightarrow> Insert et v pos x = Inr ((v', r), es) \<Longrightarrow>
     reachable et (st(a \<mapsto> v'))"
| inserted_rvalue:
    "reachable et st \<Longrightarrow> st a = Some v \<Longrightarrow>
     Insert_rvalue et v pos x = Inr ((v', r), es) \<Longrightarrow> reachable et (st(a \<mapsto> v'))"
| emplaced:
    "reachable et st \<Longrightarrow> st a = Some v \<Longrightarrow> Emplace et v pos args = Inr ((v', r), es) \<Longrightarrow>
     reachable et (st(a \<mapsto> v'))"
| erased:
    "reachable et st \<Longrightarrow> st a = Some v \<Longrightarrow> Erase et v pos = Inr ((v', r), es) \<Longrightarrow>
     reachable et (st(a \<mapsto> v'))"
| popped_back:
    "reachable et st \<Longrightarrow> st a = Some v \<Longrightarrow> PopBack v = Inr (v', es) \<Longrightarrow>
     reachable et (st(a \<mapsto> v'))"

text \<open>\<^verbatim>\<open>Size() <= Capacity()\<close>, of one container and of every object of a store.\<close>

definition fits :: "'a Vector \<Rightarrow> bool" where
  "fits v \<longleftrightarrow> size_m v \<le> capacity_m (data_m v)"

definition all_fit :: "'a store \<Rightarrow> bool" where
  "all_fit st \<longleftrightarrow> (\<forall>a v. st a = Some v \<longrightarrow> fits v)"

section \<open>Properties of the loops\<close>

lemma and_then_Inl [simp]: "and_then (Inl e) f = Inl e"
  by (simp add: and_then_def)

lemma and_then_ok [simp]: "and_then (ok r) f = f r"
  by (cases "f r") (auto simp: and_then_def ok_def)

lemma and_then_Inr [simp]:
  "and_then (Inr (r, es)) f =
     (case f r of Inl e \<Rightarrow> Inl e | Inr (s, es') \<Rightarrow> Inr (s, es @ es'))"
  by (simp add: and_then_def)

lemma load_live [simp]: "load (pre @ Some x # post) (length pre) = ok x"
  by (simp add: load_def)

lemma update_at_length [simp]:
  "length pre = n \<Longrightarrow> (pre @ y # post)[n := z] = pre @ z # post"
  by auto

lemma load_at_length [simp]:
  "length pre = n \<Longrightarrow> load (pre @ Some x # post) n = ok x"
  by (auto simp: load_def)

lemma destroy_n_segment:
  "destroy_n (pre @ map Some bs @ post) (length pre) (length bs) =
     Inr (pre @ replicate (length bs) None @ post, replicate (length bs) Destroyed)"
proof (induction bs arbitrary: pre)
  case Nil
  show ?case by (simp add: ok_def)
next
  case (Cons b bs)
  have step: "destroy_at (pre @ Some b # map Some bs @ post) (length pre) =
      Inr (pre @ None # map Some bs @ post, [Destroyed])"
    by (simp add: destroy_at_def)
  have rest: "destroy_n (pre @ None # map Some bs @ post) (Suc (length pre)) (length bs) =
      Inr (pre @ None # replicate (length bs) None @ post, replicate (length bs) Destroyed)"
    using Cons.IH [of "pre @ [None]"] by simp
  show ?case by (simp add: step rest)
qed

lemma uninitialized_value_construct_n_segment:
  "uninitialized_value_construct_n et (pre @ mid @ post) (length pre) (length mid) =
     Inr (pre @ replicate (length mid) (Some (value_init et)) @ post,
          replicate (length mid) ValueConstructed)"
proof (induction mid arbitrary: pre)
  case Nil
  show ?case by (simp add: ok_def)
next
  case (Cons m mid)
  have step: "value_construct_at et (pre @ m # mid @ post) (length pre) =
      Inr (pre @ Some (value_init et) # mid @ post, [ValueConstructed])"
    by (simp add: value_construct_at_def)
  have rest: "uninitialized_value_construct_n et (pre @ Some (value_init et) # mid @ post)
        (Suc (length pre)) (length mid) =
      Inr (pre @ Some (value_init et) # replicate (length mid) (Some (value_init et)) @ post,
           replicate (length mid) ValueConstructed)"
    using Cons.IH [of "pre @ [Some (value_init et)]"] by simp
  show ?case by (simp add: step rest)
qed

lemma uninitialized_copy_n_segment:
  "length mid = length bs \<Longrightarrow>
   uninitialized_copy_n (spre @ map Some bs @ spost) (length spre) (length bs)
       (dpre @ mid @ dpost) (length dpre) =
     Inr (dpre @ map Some bs @ dpost, replicate (length bs) CopyConstructed)"
proof (induction bs arbitrary: spre dpre mid)
  case Nil
  then show ?case by (simp add: ok_def)
next
  case (Cons b bs)
  then obtain m mid' where mid: "mid = m # mid'" and len: "length mid' = length bs"
    by (cases mid) auto
  have step: "copy_construct (spre @ Some b # map Some bs @ spost) (length spre)
        (dpre @ m # mid' @ dpost) (length dpre) =
      Inr (dpre @ Some b # mid' @ dpost, [CopyConstructed])"
    by (simp add: copy_construct_def)
  have rest: "uninitialized_copy_n (spre @ Some b # map Some bs @ spost) (Suc (length spre))
        (length bs) (dpre @ Some b # mid' @ dpost) (Suc (length dpre)) =
      Inr (dpre @ Some b # map Some bs @ dpost, replicate (length bs) CopyConstructed)"
    using Cons.IH [of mid' "spre @ [Some b]" "dpre @ [Some b]"] len by simp
  show ?case by (simp add: mid step rest)
qed

lemma uninitialized_move_n_segment:
  "length mid = length bs \<Longrightarrow>
   uninitialized_move_n et (spre @ map Some bs @ spost) (length spre) (length bs)
       (dpre @ mid @ dpost) (length dpre) =
     Inr ((spre @ map Some (map (moved_from et) bs) @ spost, dpre @ map Some bs @ dpost),
          replicate (length bs) MoveConstructed)"
proof (induction bs arbitrary: spre dpre mid)
  case Nil
  then show ?case by (simp add: ok_def)
next
  case (Cons b bs)
  then obtain m mid' where mid: "mid = m # mid'" and len: "length mid' = length bs"
    by (cases mid) auto
  have step: "move_construct et (spre @ Some b # map Some bs @ spost) (length spre)
        (dpre @ m # mid' @ dpost) (length dpre) =
      Inr ((spre @ Some (moved_from et b) # map Some bs @ spost,
            dpre @ Some b # mid' @ dpost), [MoveConstructed])"
    by (simp add: move_construct_def)
  have rest: "uninitialized_move_n et (spre @ Some (moved_from et b) # map Some bs @ spost)
        (Suc (length spre)) (length bs) (dpre @ Some b # mid' @ dpost) (Suc (length dpre)) =
      Inr ((spre @ Some (moved_from et b) # map Some (map (moved_from et) bs) @ spost,
            dpre @ Some b # map Some bs @ dpost), replicate (length bs) MoveConstructed)"
    using Cons.IH [of mid' "spre @ [Some (moved_from et b)]" "dpre @ [Some b]"] len by simp
  show ?case by (simp add: mid step rest)
qed

lemma move_n_segment:
  "move_n et (pre @ Some h # map Some suf @ post) (Suc (length pre)) (length suf) (length pre) =
     Inr (pre @ map Some suf @ Some (last (h # map (moved_from et) suf)) # post,
          replicate (length suf) MoveAssigned)"
proof (induction suf arbitrary: pre h)
  case Nil
  show ?case by (simp add: ok_def)
next
  case (Cons s suf)
  have step: "move_assign_within et (pre @ Some h # Some s # map Some suf @ post)
        (Suc (length pre)) (length pre) =
      Inr (pre @ Some s # Some (moved_from et s) # map Some suf @ post, [MoveAssigned])"
    by (simp add: move_assign_within_def load_def nth_append list_update_append ok_def)
  have rest: "move_n et (pre @ Some s # Some (moved_from et s) # map Some suf @ post)
        (Suc (Suc (length pre))) (length suf) (Suc (length pre)) =
      Inr (pre @ Some s # map Some suf @
             Some (last (moved_from et s # map (moved_from et) suf)) # post,
           replicate (length suf) MoveAssigned)"
    using Cons.IH [of "pre @ [Some s]" "moved_from et s"] by simp
  show ?case by (simp add: step rest)
qed

lemma move_backward_n_segment:
  "move_backward_n et (pre @ map Some mid @ Some h # post) (length pre + length mid)
       (length mid) (Suc (length pre + length mid)) =
     Inr (pre @ Some (hd (map (moved_from et) mid @ [h])) # map Some mid @ post,
          replicate (length mid) MoveAssigned)"
proof (induction mid arbitrary: h post rule: rev_induct)
  case Nil
  show ?case by (simp add: ok_def)
next
  case (snoc m mid)
  have step: "move_assign_within et (pre @ map Some mid @ Some m # Some h # post)
        (length pre + length mid) (Suc (length pre + length mid)) =
      Inr (pre @ map Some mid @ Some (moved_from et m) # Some m # post, [MoveAssigned])"
    by (simp add: move_assign_within_def load_def nth_append list_update_append ok_def)
  have rest: "move_backward_n et (pre @ map Some mid @ Some (moved_from et m) # Some m # post)
        (length pre + length mid) (length mid) (Suc (length pre + length mid)) =
      Inr (pre @ Some (hd (map (moved_from et) mid @ [moved_from et m])) # map Some mid @
             Some m # post,
           replicate (length mid) MoveAssigned)"
    using snoc.IH [of "moved_from et m" "Some m # post"] by simp
  have hd_eq: "hd (map (moved_from et) mid @ [moved_from et m, h]) =
      hd (map (moved_from et) mid @ [moved_from et m])"
    by (cases mid) simp_all
  show ?case by (simp add: step rest hd_eq replicate_append_same)
qed

section \<open>Closed forms on the abstraction\<close>

lemma mk_simps [simp]:
  "size_m (mk xs k) = length xs"
  "capacity_m (data_m (mk xs k)) = length xs + k"
  "buffer_m (data_m (mk xs k)) = map Some xs @ replicate k None"
  by (simp_all add: mk_def)

lemma set_buffer_simps [simp]:
  "size_m (set_buffer v b) = size_m v"
  "capacity_m (data_m (set_buffer v b)) = capacity_m (data_m v)"
  "buffer_m (data_m (set_buffer v b)) = b"
  by (simp_all add: set_buffer_def)

lemma wf_mk [simp]: "wf (mk xs k)"
  by (simp add: wf_def list_all_iff)

lemma elements_mk [simp]: "elements (mk xs k) = xs"
  by (simp add: elements_def comp_def)

lemma live_slots: "list_all (\<lambda>s. s \<noteq> None) ys \<Longrightarrow> map Some (map the ys) = ys"
  by (induction ys) auto

lemma raw_slots: "list_all (\<lambda>s. s = None) ys \<Longrightarrow> ys = replicate (length ys) None"
  by (induction ys) auto

lemma wf_mk_conv:
  assumes "wf v"
  shows "v = mk (elements v) (Capacity v - Size v)"
proof -
  let ?b = "buffer_m (data_m v)"
  let ?n = "size_m v"
  from assms have len: "length ?b = capacity_m (data_m v)" and le: "?n \<le> capacity_m (data_m v)"
    and live: "list_all (\<lambda>s. s \<noteq> None) (take ?n ?b)"
    and raw: "list_all (\<lambda>s. s = None) (drop ?n ?b)"
    by (simp_all add: wf_def)
  have "?b = take ?n ?b @ drop ?n ?b" by simp
  also have "take ?n ?b = map Some (elements v)"
    using live_slots [OF live] by (simp add: elements_def)
  also have "drop ?n ?b = replicate (Capacity v - Size v) None"
    using raw_slots [OF raw] len by (simp add: Capacity_def Size_def)
  finally have b: "?b = map Some (elements v) @ replicate (Capacity v - Size v) None" .
  have n: "length (elements v) = ?n"
    using len le by (simp add: elements_def)
  have c: "capacity_m (data_m v) = length (elements v) + (Capacity v - Size v)"
    using le n by (simp add: Capacity_def Size_def)
  show ?thesis
    unfolding mk_def using b n c by (intro Vector.equality RawMemory.equality) simp_all
qed

lemma length_relocation_source [simp]: "length (relocation_source et xs) = length xs"
  by (simp add: relocation_source_def)

lemma relocate_by_move:
  assumes "length mid = length bs"
    and "is_nothrow_move_constructible et \<or> \<not> is_copy_constructible et"
  shows "uninitialized_move_n et (spre @ map Some bs @ spost) (length spre) (length bs)
           (dpre @ mid @ dpost) (length dpre) =
         Inr ((spre @ map Some (relocation_source et bs) @ spost, dpre @ map Some bs @ dpost),
              replicate (length bs) (relocation_event et))"
  using uninitialized_move_n_segment [OF assms(1), of et spre spost dpre dpost] assms(2)
  by (simp add: relocation_event_def relocation_source_def)

lemma relocate_by_copy:
  assumes "length mid = length bs"
    and "\<not> (is_nothrow_move_constructible et \<or> \<not> is_copy_constructible et)"
  shows "uninitialized_copy_n (spre @ map Some bs @ spost) (length spre) (length bs)
           (dpre @ mid @ dpost) (length dpre) =
         Inr (dpre @ map Some bs @ dpost, replicate (length bs) (relocation_event et))"
  using uninitialized_copy_n_segment [OF assms(1), of spre spost dpre dpost] assms(2)
  by (simp add: relocation_event_def)

lemma RawMemory_new_allocates:
  assumes "allocates et n"
  shows "RawMemory_new et n = Inr (\<lparr>buffer_m = replicate n None, capacity_m = n\<rparr>, [])"
proof (cases "n = 0")
  case True
  then show ?thesis by (simp add: RawMemory_new_def Allocate_def ok_def)
next
  case False
  with assms have s: "0 < sizeof_T et" and le: "n * sizeof_T et \<le> SIZE_MAX"
    and new: "new_succeeds et (n * sizeof_T et)"
    by (simp_all add: allocates_def)
  from le have "(n * sizeof_T et) mod (SIZE_MAX + 1) = n * sizeof_T et" by simp
  moreover from s have "n * sizeof_T et div sizeof_T et = n" by simp
  ultimately show ?thesis
    using False new by (simp add: RawMemory_new_def Allocate_def operator_new_def ok_def)
qed

lemma RawMemory_new_zero: "RawMemory_new et 0 = Inr (data_m Vector_default, [])"
  by (simp add: RawMemory_new_def Allocate_def Vector_default_def ok_def)

lemma RawMemory_new_refused:
  assumes "n \<noteq> 0" and "\<not> new_succeeds et ((n * sizeof_T et) mod (SIZE_MAX + 1))"
  shows "RawMemory_new et n = Inl BadAlloc"
  using assms by (simp add: RawMemory_new_def Allocate_def operator_new_def)

lemma allocates_zero [simp]: "allocates et 0"
  by (simp add: allocates_def)

lemma Reserve_mk_small:
  "n \<le> length xs + k \<Longrightarrow> Reserve et (mk xs k) n = Inr (mk xs k, [])"
  by (simp add: Reserve_def ok_def)

lemma Reserve_mk_grow:
  assumes "length xs + k < n" and "allocates et n"
  shows "Reserve et (mk xs k) n =
     Inr (mk xs (n - length xs),
          replicate (length xs) (relocation_event et) @ replicate (length xs) Destroyed)"
proof -
  let ?len = "length xs"
  let ?C = "is_nothrow_move_constructible et \<or> \<not> is_copy_constructible et"
  have new: "RawMemory_new et n = Inr (\<lparr>buffer_m = replicate n None, capacity_m = n\<rparr>, [])"
    using assms(2) by (rule RawMemory_new_allocates)
  have split: "replicate n None = replicate ?len None @ replicate (n - ?len) (None :: 'a option)"
    using assms(1) by (simp add: replicate_add [symmetric])
  have mv: "uninitialized_move_n et (map Some xs @ replicate k None) 0 ?len
               (replicate n None) 0 =
      Inr ((map Some (relocation_source et xs) @ replicate k None,
            map Some xs @ replicate (n - ?len) None),
           replicate ?len (relocation_event et))" if ?C
    using that relocate_by_move [where mid = "replicate ?len None" and bs = xs and et = et
        and spre = "[]" and spost = "replicate k None" and dpre = "[]"
        and dpost = "replicate (n - ?len) None"]
    by (simp add: split [symmetric])
  have cp: "uninitialized_copy_n (map Some xs @ replicate k None) 0 ?len (replicate n None) 0 =
      Inr (map Some xs @ replicate (n - ?len) None, replicate ?len (relocation_event et))"
    if "\<not> ?C"
    using that relocate_by_copy [where mid = "replicate ?len None" and bs = xs and et = et
        and spre = "[]" and spost = "replicate k None" and dpre = "[]"
        and dpost = "replicate (n - ?len) None"]
    by (simp add: split [symmetric])
  have destr: "destroy_n (map Some ys @ replicate k None) 0 ?len =
      Inr (replicate ?len None @ replicate k None, replicate ?len Destroyed)"
    if "length ys = ?len" for ys :: "'a list"
    using destroy_n_segment [of "[]" ys "replicate k None"] that by simp
  have "Reserve et (mk xs k) n =
      Inr (mk xs k\<lparr>data_m := \<lparr>buffer_m = replicate n None, capacity_m = n\<rparr>
             \<lparr>buffer_m := map Some xs @ replicate (n - ?len) None\<rparr>\<rparr>,
           replicate ?len (relocation_event et) @ replicate ?len Destroyed)"
  proof (cases ?C)
    case True
    show ?thesis
      using assms(1) True
      by (simp add: Reserve_def Let_def new mv [OF True] destr ok_def)
  next
    case False
    show ?thesis
      using assms(1) False
      by (simp add: Reserve_def Let_def new cp [OF False] destr ok_def)
  qed
  also have "mk xs k\<lparr>data_m := \<lparr>buffer_m = replicate n None, capacity_m = n\<rparr>
             \<lparr>buffer_m := map Some xs @ replicate (n - ?len) None\<rparr>\<rparr> = mk xs (n - ?len)"
    using assms(1) by (simp add: mk_def)
  finally show ?thesis .
qed

lemma EmplaceBack_mk_full:
  assumes "allocates et (if xs = [] then 1 else length xs * 2)"
  shows "EmplaceBack et (mk xs 0) a =
     Inr ((mk (xs @ [init_value a]) (length xs - 1), length xs),
          init_event a # replicate (length xs) (relocation_event et) @
            replicate (length xs) Destroyed)"
proof (cases "xs = []")
  case True
  from assms True have "allocates et (Suc 0)" by simp
  then have new: "RawMemory_new et (Suc 0) = Inr (\<lparr>buffer_m = [None], capacity_m = Suc 0\<rparr>, [])"
    using RawMemory_new_allocates [of et "Suc 0"] by simp
  have shape: "mk [] 0\<lparr>data_m := \<lparr>buffer_m = [Some (init_value a)], capacity_m = Suc 0\<rparr>,
        size_m := Suc 0\<rparr> = mk [init_value a] 0"
    by (simp add: mk_def)
  show ?thesis
    using True
    by (simp add: EmplaceBack_def Let_def Capacity_def new RawMemory_plus_def
        RawMemory_index_def construct_at_def ok_def shape)
next
  case False
  let ?len = "length xs"
  let ?x = "init_value a"
  let ?C = "is_nothrow_move_constructible et \<or> \<not> is_copy_constructible et"
  from assms False have new: "RawMemory_new et (?len * 2) =
      Inr (\<lparr>buffer_m = replicate (?len * 2) None, capacity_m = ?len * 2\<rparr>, [])"
    by (simp add: RawMemory_new_allocates)
  have N: "?len * 2 = ?len + Suc (?len - Suc 0)"
    using False by (cases xs) simp_all
  have split: "replicate (?len * 2) None =
      replicate ?len None @ None # replicate (?len - Suc 0) (None :: 'a option)"
    unfolding N by (simp only: replicate_add replicate_Suc)
  have cons: "construct_at (replicate (?len * 2) None) ?len a =
      Inr (replicate ?len None @ Some ?x # replicate (?len - Suc 0) None, [init_event a])"
    by (simp add: split construct_at_def)
  have mv: "uninitialized_move_n et (map Some xs) 0 ?len
               (replicate ?len None @ Some ?x # replicate (?len - Suc 0) None) 0 =
      Inr ((map Some (relocation_source et xs),
            map Some xs @ Some ?x # replicate (?len - Suc 0) None),
           replicate ?len (relocation_event et))" if ?C
    using that relocate_by_move [where mid = "replicate ?len None" and bs = xs and et = et
        and spre = "[]" and spost = "[]" and dpre = "[]"
        and dpost = "Some ?x # replicate (?len - Suc 0) None"]
    by simp
  have cp: "uninitialized_copy_n (map Some xs) 0 ?len
               (replicate ?len None @ Some ?x # replicate (?len - Suc 0) None) 0 =
      Inr (map Some xs @ Some ?x # replicate (?len - Suc 0) None,
           replicate ?len (relocation_event et))" if "\<not> ?C"
    using that relocate_by_copy [where mid = "replicate ?len None" and bs = xs and et = et
        and spre = "[]" and spost = "[]" and dpre = "[]"
        and dpost = "Some ?x # replicate (?len - Suc 0) None"]
    by simp
  have destr: "destroy_n (map Some ys) 0 ?len = Inr (replicate ?len None, replicate ?len Destroyed)"
    if "length ys = ?len" for ys :: "'a list"
    using destroy_n_segment [of "[]" ys "[]"] that by simp
  have shape: "mk xs 0\<lparr>data_m := \<lparr>buffer_m =
        map Some xs @ Some ?x # replicate (?len - Suc 0) None, capacity_m = ?len * 2\<rparr>,
        size_m := Suc ?len\<rparr> = mk (xs @ [?x]) (?len - Suc 0)"
    using False by (simp add: mk_def N)
  show ?thesis
  proof (cases ?C)
    case True
    show ?thesis
      using True False
      by (simp add: EmplaceBack_def Let_def Capacity_def new RawMemory_plus_def
          RawMemory_index_def cons mv [OF True] destr ok_def shape)
  next
    case nc: False
    show ?thesis
      using nc False
      by (simp add: EmplaceBack_def Let_def Capacity_def new RawMemory_plus_def
          RawMemory_index_def cons cp [OF nc] destr ok_def shape)
  qed
qed

lemma EmplaceBack_mk_spare:
  "EmplaceBack et (mk xs (Suc k)) a =
     Inr ((mk (xs @ [init_value a]) k, length xs), [init_event a])"
proof -
  have cons: "construct_at (map Some xs @ None # replicate k None) (length xs) a =
      Inr (map Some xs @ Some (init_value a) # replicate k None, [init_event a])"
    by (simp add: construct_at_def)
  have shape: "(set_buffer (mk xs (Suc k)) (map Some xs @ Some (init_value a) # replicate k None))
        \<lparr>size_m := Suc (length xs)\<rparr> = mk (xs @ [init_value a]) k"
    by (simp add: mk_def set_buffer_def)
  show ?thesis
    by (simp add: EmplaceBack_def Let_def Capacity_def RawMemory_plus_def RawMemory_index_def
        cons shape ok_def)
qed

lemma Size_mk [simp]: "Size (mk xs k) = length xs"
  by (simp add: Size_def)

lemma Capacity_mk [simp]: "Capacity (mk xs k) = length xs + k"
  by (simp add: Capacity_def)

lemma Vector_index_mk:
  "i < length xs \<Longrightarrow> Vector_index (mk xs k) i = Inr (xs ! i, [])"
  by (simp add: Vector_index_def RawMemory_index_def load_def nth_append ok_def)

lemma Vector_default_mk: "Vector_default = mk [] 0"
  by (simp add: Vector_default_def mk_def)

lemma push_back_mk:
  assumes "k = 0 \<Longrightarrow> allocates et (if xs = [] then 1 else length xs * 2)"
  shows "\<exists>k' es. push_back et (mk xs k) p = Inr (mk (xs @ [pushed_value p]) k', es) \<and>
           Suc (length xs) + k' =
             (if k = 0 then (if xs = [] then 1 else length xs * 2) else length xs + k)"
proof (cases k)
  case 0
  have "Suc (length xs) + (length xs - 1) = (if xs = [] then 1 else length xs * 2)"
    by (cases xs) simp_all
  with 0 show ?thesis
    using EmplaceBack_mk_full [OF assms]
    by (cases p) (auto simp: PushBack_def PushBack_rvalue_def ok_def)
next
  case (Suc k')
  then show ?thesis
    by (cases p) (auto simp: PushBack_def PushBack_rvalue_def EmplaceBack_mk_spare ok_def)
qed

text \<open>A run of pushes asks for blocks of \<open>1, 2, 4, \<dots>\<close> objects when it starts from a
  block whose capacity is \<open>0\<close> or a power of two.\<close>

lemma push_all_mk:
  assumes "\<And>i. 2 ^ i < 2 * (length xs + length ps) \<Longrightarrow> allocates et (2 ^ i)"
    and "length xs + k = 0 \<or> (\<exists>j. length xs + k = 2 ^ j)"
  shows "\<exists>k' es. push_all et (mk xs k) ps = Inr (mk (xs @ map pushed_value ps) k', es)"
  using assms
proof (induction ps arbitrary: xs k)
  case Nil
  show ?case by (auto simp: ok_def)
next
  case (Cons p ps)
  let ?c = "if k = 0 then (if xs = [] then 1 else length xs * 2) else length xs + k"
  have power: "\<exists>j. ?c = 2 ^ j"
  proof (cases "k = 0 \<and> xs = []")
    case True
    then have "?c = 2 ^ 0" by simp
    then show ?thesis by blast
  next
    case False
    with Cons.prems(2) obtain j where j: "length xs + k = 2 ^ j"
      by auto
    show ?thesis
    proof (cases "k = 0")
      case True
      with False j have "?c = 2 ^ Suc j" by simp
      then show ?thesis by blast
    next
      case False
      with j show ?thesis by auto
    qed
  qed
  have alloc: "allocates et (if xs = [] then 1 else length xs * 2)" if "k = 0"
  proof -
    from power that obtain j where j: "(if xs = [] then 1 else length xs * 2) = 2 ^ j"
      by auto
    then have "2 ^ j < 2 * (length xs + length (p # ps))"
      by (auto split: if_splits)
    then have "allocates et (2 ^ j)"
      by (rule Cons.prems(1))
    with j show ?thesis by (simp only:)
  qed
  obtain k1 es1 where
    one: "push_back et (mk xs k) p = Inr (mk (xs @ [pushed_value p]) k1, es1)"
    and cap: "Suc (length xs) + k1 = ?c"
    using push_back_mk [of k et xs p] alloc by blast
  have "\<And>i. 2 ^ i < 2 * (length (xs @ [pushed_value p]) + length ps) \<Longrightarrow>
      allocates et (2 ^ i)"
    using Cons.prems(1) by simp
  moreover have "length (xs @ [pushed_value p]) + k1 = 0 \<or>
      (\<exists>j. length (xs @ [pushed_value p]) + k1 = 2 ^ j)"
    using power cap by simp
  ultimately obtain k2 es2 where rest: "push_all et (mk (xs @ [pushed_value p]) k1) ps =
      Inr (mk ((xs @ [pushed_value p]) @ map pushed_value ps) k2, es2)"
    using Cons.IH [of "xs @ [pushed_value p]" k1] by blast
  show ?case by (auto simp: one rest)
qed

subsection \<open>Erase and Emplace\<close>

lemma size_t_sub_le [simp]: "b \<le> a \<Longrightarrow> size_t_sub a b = a - b"
  by (simp add: size_t_sub_def)

lemma begin_it_mk [simp]: "begin_it (mk xs k) = ok 0"
  by (simp add: begin_it_def RawMemory_plus_def)

lemma end_it_mk [simp]: "end_it (mk xs k) = ok (length xs)"
  by (simp add: end_it_def RawMemory_plus_def)

lemma Erase_mk:
  "Erase et (mk (pre @ x # suf) k) (length pre) =
     Inr ((mk (pre @ suf) (Suc k), length pre),
          replicate (length suf) MoveAssigned @ [Destroyed])"
proof -
  define h where "h = last (x # map (moved_from et) suf)"
  have sm: "std_move et (map Some pre @ Some x # map Some suf @ replicate k None)
        (Suc (length pre)) (Suc (length pre + length suf)) (length pre) =
      Inr ((map Some pre @ map Some suf @ Some h # replicate k None, length pre + length suf),
           replicate (length suf) MoveAssigned)"
    using move_n_segment [of et "map Some pre" x suf "replicate k None"]
    unfolding h_def by (simp add: std_move_def ok_def)
  have de: "destroy_at (map Some pre @ map Some suf @ Some h # replicate k None)
        (length pre + length suf) =
      Inr (map Some pre @ map Some suf @ None # replicate k None, [Destroyed])"
    using load_at_length [of "map Some pre @ map Some suf" "length pre + length suf" h
        "replicate k None"]
      update_at_length [of "map Some pre @ map Some suf" "length pre + length suf" "Some h"
        "replicate k None" None]
    by (simp add: destroy_at_def)
  have shape: "(set_buffer (mk (pre @ x # suf) k)
        (map Some pre @ map Some suf @ None # replicate k None))
        \<lparr>size_m := length pre + length suf\<rparr> = mk (pre @ suf) (Suc k)"
    by (simp add: mk_def set_buffer_def)
  show ?thesis
    by (simp add: Erase_def Let_def sm de shape ok_def)
qed

lemma Emplace_mk_empty_spare:
  "Emplace et (mk [] (Suc k)) 0 a = Inr ((mk [init_value a] k, 0), [init_event a])"
proof -
  have shape: "(set_buffer (mk [] (Suc k)) (Some (init_value a) # replicate k None))
        \<lparr>size_m := Suc 0\<rparr> = mk [init_value a] k"
    by (simp add: mk_def set_buffer_def)
  show ?thesis
    by (simp add: Emplace_def Let_def construct_at_def RawMemory_plus_def shape ok_def)
qed

lemma Emplace_mk_end_spare:
  assumes "xs \<noteq> []"
  shows "Emplace et (mk xs (Suc k)) (length xs) a = Inl UndefinedBehaviour"
proof -
  obtain ys l where xs: "xs = ys @ [l]"
    using assms by (cases xs rule: rev_cases) auto
  have mc: "move_construct_within et (map Some ys @ Some l # None # replicate k None)
        (length ys) (Suc (length ys)) =
      Inr (map Some ys @ Some (moved_from et l) # Some l # replicate k None, [MoveConstructed])"
    using update_at_length [of "map Some ys @ [Some (moved_from et l)]" "Suc (length ys)" None
        "replicate k None" "Some l"]
    by (simp add: move_construct_within_def)
  show ?thesis
    unfolding xs
    by (simp add: Emplace_def Let_def RawMemory_index_def mc move_backward_def)
qed

lemma Emplace_mk_inner_spare:
  "Emplace et (mk (pre @ mid @ [l]) (Suc k)) (length pre) a =
     Inr ((mk (pre @ init_value a # mid @ [l]) k, length pre),
          [init_event a, MoveConstructed] @ replicate (length mid) MoveAssigned @
            [MoveAssigned, Destroyed])"
proof -
  let ?x = "init_value a"
  define h where "h = hd (map (moved_from et) mid @ [moved_from et l])"
  have mc: "move_construct_within et
        (map Some pre @ map Some mid @ Some l # None # replicate k None)
        (length pre + length mid) (Suc (length pre + length mid)) =
      Inr (map Some pre @ map Some mid @ Some (moved_from et l) # Some l # replicate k None,
           [MoveConstructed])"
    using load_at_length [of "map Some pre @ map Some mid" "length pre + length mid" l
        "None # replicate k None"]
      update_at_length [of "map Some pre @ map Some mid" "length pre + length mid" "Some l"
        "None # replicate k None" "Some (moved_from et l)"]
      update_at_length [of "map Some pre @ map Some mid @ [Some (moved_from et l)]"
        "Suc (length pre + length mid)" None "replicate k None" "Some l"]
    by (simp add: move_construct_within_def)
  have mb: "move_backward et
        (map Some pre @ map Some mid @ Some (moved_from et l) # Some l # replicate k None)
        (length pre) (length pre + length mid) (Suc (length pre + length mid)) =
      Inr (map Some pre @ Some h # map Some mid @ Some l # replicate k None,
           replicate (length mid) MoveAssigned)"
    using move_backward_n_segment [of et "map Some pre" mid "moved_from et l"
        "Some l # replicate k None"]
    unfolding h_def by (simp add: move_backward_def)
  have ma: "move_assign_value (map Some pre @ Some h # map Some mid @ Some l # replicate k None)
        (length pre) ?x =
      Inr (map Some pre @ Some ?x # map Some mid @ Some l # replicate k None, [MoveAssigned])"
    by (simp add: move_assign_value_def)
  have shape: "(set_buffer (mk (pre @ mid @ [l]) (Suc k))
        (map Some pre @ Some ?x # map Some mid @ Some l # replicate k None))
        \<lparr>size_m := Suc (Suc (length pre + length mid))\<rparr> = mk (pre @ ?x # mid @ [l]) k"
    by (simp add: mk_def set_buffer_def)
  show ?thesis
    by (simp add: Emplace_def Let_def RawMemory_index_def RawMemory_plus_def mc mb ma shape
        ok_def)
qed

lemma Emplace_mk_full:
  assumes "allocates et (if pre @ suf = [] then 1 else (length pre + length suf) * 2)"
  shows "Emplace et (mk (pre @ suf) 0) (length pre) a =
     Inr ((mk (pre @ init_value a # suf) (length pre + length suf - 1), length pre),
          init_event a # replicate (length pre + length suf) (relocation_event et) @
            replicate (length pre + length suf) Destroyed)"
proof (cases "pre @ suf = []")
  case True
  from assms True have "allocates et (Suc 0)" by simp
  then have new: "RawMemory_new et (Suc 0) = Inr (\<lparr>buffer_m = [None], capacity_m = Suc 0\<rparr>, [])"
    using RawMemory_new_allocates [of et "Suc 0"] by simp
  have shape: "mk [] 0\<lparr>data_m := \<lparr>buffer_m = [Some (init_value a)], capacity_m = Suc 0\<rparr>,
        size_m := Suc 0\<rparr> = mk [init_value a] 0"
    by (simp add: mk_def)
  show ?thesis
    using True
    by (simp add: Emplace_def Let_def new RawMemory_plus_def
        construct_at_def ok_def shape)
next
  case False
  let ?x = "init_value a"
  let ?C = "is_nothrow_move_constructible et \<or> \<not> is_copy_constructible et"
  let ?R = "relocation_event et"
  define xs where "xs = pre @ suf"
  define free :: "'a block" where "free = replicate (length xs - Suc 0) None"
  have ne: "xs \<noteq> []" and len: "length xs = length pre + length suf"
    using False by (simp_all add: xs_def)
  have "(if pre @ suf = [] then 1 else (length pre + length suf) * 2) = length xs * 2"
    using False len by simp
  with assms have "allocates et (length xs * 2)"
    by (simp only:)
  then have new: "RawMemory_new et (length xs * 2) =
      Inr (\<lparr>buffer_m = replicate (length xs * 2) None, capacity_m = length xs * 2\<rparr>, [])"
    by (rule RawMemory_new_allocates)
  have cnt: "size_t_sub (length xs) (length pre) = length suf"
    by (simp add: len)
  have N: "length xs * 2 = length pre + Suc (length suf + (length xs - Suc 0))"
    using ne len by (cases xs) simp_all
  have split: "replicate (length xs * 2) None =
      replicate (length pre) None @ None # replicate (length suf) None @ free"
    unfolding N free_def by (simp only: replicate_add replicate_Suc)
  have cons: "construct_at (replicate (length xs * 2) None) (length pre) a =
      Inr (replicate (length pre) None @ Some ?x # replicate (length suf) None @ free,
           [init_event a])"
    by (simp add: split construct_at_def)
  have mv1: "uninitialized_move_n et (map Some xs) 0 (length pre)
        (replicate (length pre) None @ Some ?x # replicate (length suf) None @ free) 0 =
      Inr ((map Some (relocation_source et pre) @ map Some suf,
            map Some pre @ Some ?x # replicate (length suf) None @ free),
           replicate (length pre) ?R)" if ?C
    using that relocate_by_move [where mid = "replicate (length pre) None" and bs = pre
        and et = et and spre = "[]" and spost = "map Some suf" and dpre = "[]"
        and dpost = "Some ?x # replicate (length suf) None @ free"]
    by (simp add: xs_def)
  have mv2: "uninitialized_move_n et (map Some (relocation_source et pre) @ map Some suf)
        (length pre) (length suf)
        (map Some pre @ Some ?x # replicate (length suf) None @ free) (Suc (length pre)) =
      Inr ((map Some (relocation_source et pre) @ map Some (relocation_source et suf),
            map Some pre @ Some ?x # map Some suf @ free),
           replicate (length suf) ?R)" if ?C
    using that relocate_by_move [where mid = "replicate (length suf) None" and bs = suf
        and et = et and spre = "map Some (relocation_source et pre)" and spost = "[]"
        and dpre = "map Some pre @ [Some ?x]" and dpost = free]
    by simp
  have cp1: "uninitialized_copy_n (map Some xs) 0 (length pre)
        (replicate (length pre) None @ Some ?x # replicate (length suf) None @ free) 0 =
      Inr (map Some pre @ Some ?x # replicate (length suf) None @ free,
           replicate (length pre) ?R)" if "\<not> ?C"
    using that relocate_by_copy [where mid = "replicate (length pre) None" and bs = pre
        and et = et and spre = "[]" and spost = "map Some suf" and dpre = "[]"
        and dpost = "Some ?x # replicate (length suf) None @ free"]
    by (simp add: xs_def)
  have cp2: "uninitialized_copy_n (map Some xs) (length pre) (length suf)
        (map Some pre @ Some ?x # replicate (length suf) None @ free) (Suc (length pre)) =
      Inr (map Some pre @ Some ?x # map Some suf @ free, replicate (length suf) ?R)"
    if "\<not> ?C"
    using that relocate_by_copy [where mid = "replicate (length suf) None" and bs = suf
        and et = et and spre = "map Some pre" and spost = "[]"
        and dpre = "map Some pre @ [Some ?x]" and dpost = free]
    by (simp add: xs_def)
  have destr_mv: "destroy_n
        (map Some (relocation_source et pre) @ map Some (relocation_source et suf)) 0
        (length xs) = Inr (replicate (length xs) None, replicate (length xs) Destroyed)"
    using destroy_n_segment [of "[]" "relocation_source et pre @ relocation_source et suf" "[]"]
    by (simp add: len)
  have destr_cp: "destroy_n (map Some xs) 0 (length xs) =
      Inr (replicate (length xs) None, replicate (length xs) Destroyed)"
    using destroy_n_segment [of "[]" xs "[]"] by simp
  have shape: "mk xs 0\<lparr>data_m := \<lparr>buffer_m = map Some pre @ Some ?x # map Some suf @ free,
        capacity_m = length xs * 2\<rparr>, size_m := Suc (length xs)\<rparr> =
      mk (pre @ ?x # suf) (length xs - Suc 0)"
    using False by (simp add: mk_def N free_def len)
  have events: "replicate (length pre) ?R @ replicate (length suf) ?R @
      replicate (length xs) Destroyed =
      replicate (length xs) ?R @ replicate (length xs) Destroyed"
    by (simp add: len replicate_add)
  have le: "length pre \<le> length xs * 2"
    by (simp add: len)
  have "Emplace et (mk xs 0) (length pre) a =
      Inr ((mk (pre @ ?x # suf) (length xs - Suc 0), length pre),
           init_event a # replicate (length xs) ?R @ replicate (length xs) Destroyed)"
  proof (cases ?C)
    case True
    show ?thesis
      using True ne le
      by (simp add: Emplace_def Let_def new RawMemory_plus_def cnt
          cons mv1 [OF True] mv2 [OF True] destr_mv ok_def shape events)
  next
    case nc: False
    show ?thesis
      using nc ne le
      by (simp add: Emplace_def Let_def new RawMemory_plus_def cnt
          cons cp1 [OF nc] cp2 [OF nc] destr_cp ok_def shape events)
  qed
  then show ?thesis
    by (simp add: xs_def)
qed

subsection \<open>Closed forms by position\<close>

lemma wf_cases:
  assumes "wf v"
  obtains xs k where "v = mk xs k"
  using wf_mk_conv [OF assms] by blast

lemma Erase_mk_at:
  assumes "pos < length xs"
  shows "Erase et (mk xs k) pos =
     Inr ((mk (take pos xs @ drop (Suc pos) xs) (Suc k), pos),
          replicate (length xs - pos - 1) MoveAssigned @ [Destroyed])"
proof -
  have "Erase et (mk (take pos xs @ xs ! pos # drop (Suc pos) xs) k) (length (take pos xs)) =
     Inr ((mk (take pos xs @ drop (Suc pos) xs) (Suc k), length (take pos xs)),
          replicate (length (drop (Suc pos) xs)) MoveAssigned @ [Destroyed])"
    by (rule Erase_mk)
  moreover have "take pos xs @ xs ! pos # drop (Suc pos) xs = xs"
    using assms by (simp add: id_take_nth_drop [symmetric])
  moreover have "length (take pos xs) = pos" "length (drop (Suc pos) xs) = length xs - pos - 1"
    using assms by simp_all
  ultimately show ?thesis by simp
qed

lemma Emplace_mk_full_at:
  assumes "pos \<le> length xs" and "allocates et (if xs = [] then 1 else length xs * 2)"
  shows "Emplace et (mk xs 0) pos a =
     Inr ((mk (take pos xs @ init_value a # drop pos xs) (length xs - 1), pos),
          init_event a # replicate (length xs) (relocation_event et) @
            replicate (length xs) Destroyed)"
proof -
  have "Emplace et (mk (take pos xs @ drop pos xs) 0) (length (take pos xs)) a =
     Inr ((mk (take pos xs @ init_value a # drop pos xs)
             (length (take pos xs) + length (drop pos xs) - 1), length (take pos xs)),
          init_event a #
            replicate (length (take pos xs) + length (drop pos xs)) (relocation_event et) @
            replicate (length (take pos xs) + length (drop pos xs)) Destroyed)"
  proof (rule Emplace_mk_full)
    have "(if take pos xs @ drop pos xs = [] then 1
           else (length (take pos xs) + length (drop pos xs)) * 2) =
          (if xs = [] then 1 else length xs * 2)"
      using assms(1) by (auto simp: min_def)
    with assms(2) show "allocates et (if take pos xs @ drop pos xs = [] then 1
           else (length (take pos xs) + length (drop pos xs)) * 2)"
      by (simp only:)
  qed
  moreover have "length (take pos xs) = pos" "length (take pos xs) + length (drop pos xs) = length xs"
    using assms(1) by simp_all
  ultimately show ?thesis by simp
qed

lemma Emplace_mk_inner_at:
  assumes "pos < length xs"
  shows "Emplace et (mk xs (Suc k)) pos a =
     Inr ((mk (take pos xs @ init_value a # drop pos xs) k, pos),
          [init_event a, MoveConstructed] @ replicate (length xs - pos - 1) MoveAssigned @
            [MoveAssigned, Destroyed])"
proof -
  let ?pre = "take pos xs" and ?mid = "drop pos (butlast xs)" and ?l = "last xs"
  have ne: "xs \<noteq> []"
    using assms by auto
  have tail: "?mid @ [?l] = drop pos xs"
    using assms ne by (metis append_butlast_last_id drop_append length_butlast
        diff_is_0_eq' drop0 less_Suc_eq_le Suc_diff_1 length_greater_0_conv drop_0)
  have "Emplace et (mk (?pre @ ?mid @ [?l]) (Suc k)) (length ?pre) a =
     Inr ((mk (?pre @ init_value a # ?mid @ [?l]) k, length ?pre),
          [init_event a, MoveConstructed] @ replicate (length ?mid) MoveAssigned @
            [MoveAssigned, Destroyed])"
    by (rule Emplace_mk_inner_spare)
  moreover have "length ?pre = pos" "length ?mid = length xs - pos - 1"
    using assms by simp_all
  ultimately show ?thesis
    by (simp only: tail append_take_drop_id)
qed

lemma spare_vector_mk: "spare_vector = mk [7, 8] 1"
  by (simp add: spare_vector_def mk_def)

lemma full_vector_mk: "full_vector = mk [7, 8] 0"
  by (simp add: full_vector_def mk_def)

lemma PushBack_EmplaceBack:
  "EmplaceBack et v (CopyOf x) = Inr ((v', p), es) \<Longrightarrow> PushBack et v x = Inr (v', es)"
  "EmplaceBack et v (MoveOf x) = Inr ((v', p), es) \<Longrightarrow> PushBack_rvalue et v x = Inr (v', es)"
  by (simp_all add: PushBack_def PushBack_rvalue_def ok_def)

lemma example_facts:
  "wf spare_vector" "Size spare_vector = 2" "Capacity spare_vector = 3"
  "elements spare_vector = [7, 8]"
  "wf full_vector" "Size full_vector = 2" "Capacity full_vector = 2"
  "elements full_vector = [7, 8]"
  by (simp_all add: spare_vector_mk full_vector_mk)

subsection \<open>Emplace at the end position, and the round trip\<close>

lemma Emplace_end_growth_or_empty:
  assumes "wf v" and "Size v = Capacity v \<or> Size v = 0"
    and "Size v = Capacity v \<Longrightarrow> allocates et (if Size v = 0 then 1 else Size v * 2)"
  shows "Emplace et v (Size v) a = EmplaceBack et v a"
proof -
  obtain xs k where v: "v = mk xs k"
    using assms(1) by (rule wf_cases)
  show ?thesis
  proof (cases k)
    case 0
    with assms(3) have alloc: "allocates et (if xs = [] then 1 else length xs * 2)"
      by (simp add: v cong: if_cong)
    from 0 show ?thesis
      using Emplace_mk_full_at [of "length xs" xs et a, OF _ alloc]
      by (simp add: v EmplaceBack_mk_full [OF alloc])
  next
    case (Suc k')
    with assms(2) have "xs = []"
      by (simp add: v)
    then show ?thesis
      by (simp add: v Suc Emplace_mk_empty_spare EmplaceBack_mk_spare)
  qed
qed

lemma Emplace_end_spare:
  assumes "wf v" and "0 < Size v" and "Size v < Capacity v"
  shows "Emplace et v (Size v) a = Inl UndefinedBehaviour"
    and "\<exists>v'. EmplaceBack et v a = Inr ((v', Size v), [init_event a]) \<and>
           elements v' = elements v @ [init_value a]"
proof -
  obtain xs k where v: "v = mk xs k"
    using assms(1) by (rule wf_cases)
  from assms(2,3) obtain k' where k: "k = Suc k'" and ne: "xs \<noteq> []"
    by (cases k) (auto simp: v)
  show "Emplace et v (Size v) a = Inl UndefinedBehaviour"
    using Emplace_mk_end_spare [OF ne] by (simp add: v k)
  show "\<exists>v'. EmplaceBack et v a = Inr ((v', Size v), [init_event a]) \<and>
           elements v' = elements v @ [init_value a]"
    by (simp add: v k EmplaceBack_mk_spare)
qed

lemma insert_then_erase_restores:
  assumes "wf v" and "pos \<le> Size v"
    and "pos < Size v \<or> Size v = Capacity v \<or> Size v = 0"
    and "Size v = Capacity v \<Longrightarrow> allocates et (if Size v = 0 then 1 else Size v * 2)"
  shows "\<exists>v' es. insert_then_erase et v pos x = Inr ((v', pos), es) \<and> wf v' \<and>
           Size v' = Size v \<and> elements v' = elements v"
proof -
  obtain xs k where v: "v = mk xs k"
    using assms(1) by (rule wf_cases)
  have pos: "pos \<le> length xs"
    using assms(2) by (simp add: v)
  have "\<exists>k' es. Insert et v pos x = Inr ((mk (take pos xs @ x # drop pos xs) k', pos), es)"
  proof (cases k)
    case 0
    with assms(4) have "allocates et (if xs = [] then 1 else length xs * 2)"
      by (simp add: v cong: if_cong)
    with 0 show ?thesis
      using Emplace_mk_full_at [OF pos, of et "CopyOf x"] by (auto simp: v Insert_def)
  next
    case (Suc k')
    show ?thesis
    proof (cases "pos < length xs")
      case True
      then show ?thesis
        using Emplace_mk_inner_at [of pos xs et k' "CopyOf x"] by (auto simp: v Suc Insert_def)
    next
      case False
      with assms(3) pos have "xs = []" "pos = 0"
        by (simp_all add: v Suc)
      then show ?thesis
        by (auto simp: v Suc Insert_def Emplace_mk_empty_spare)
    qed
  qed
  then obtain k' es where ins:
    "Insert et v pos x = Inr ((mk (take pos xs @ x # drop pos xs) k', pos), es)"
    by blast
  have "Erase et (mk (take pos xs @ x # drop pos xs) k') (length (take pos xs)) =
      Inr ((mk (take pos xs @ drop pos xs) (Suc k'), length (take pos xs)),
           replicate (length (drop pos xs)) MoveAssigned @ [Destroyed])"
    by (rule Erase_mk)
  then have era: "Erase et (mk (take pos xs @ x # drop pos xs) k') pos =
      Inr ((mk xs (Suc k'), pos), replicate (length xs - pos) MoveAssigned @ [Destroyed])"
    using pos by simp
  show ?thesis
    using ins unfolding insert_then_erase_def v by (simp add: era)
qed

section \<open>Operations on two containers\<close>

lemma assign_move_exchange [simp]: "assign_move v w = (w, v)"
  by (simp add: assign_move_def RawMemory_assign_move_def)

lemma Swap_exchange [simp]: "Swap v w = (w, v)"
  by (simp add: Swap_def RawMemory_Swap_def)

section \<open>Preservation of \<^verbatim>\<open>Size() <= Capacity()\<close>\<close>

lemma and_then_eq_Inr:
  "and_then m f = Inr (s, es) \<longleftrightarrow>
     (\<exists>r es1 es2. m = Inr (r, es1) \<and> f r = Inr (s, es2) \<and> es = es1 @ es2)"
  by (auto simp: and_then_def split: sum.splits prod.splits)

lemma ok_eq_Inr [simp]: "ok r = Inr (s, es) \<longleftrightarrow> s = r \<and> es = []"
  by (auto simp: ok_def)

lemma RawMemory_new_capacity:
  "RawMemory_new et n = Inr (d, es) \<Longrightarrow> capacity_m d = n \<and> es = []"
  by (auto simp: RawMemory_new_def Allocate_def operator_new_def and_then_eq_Inr ok_def
      split: if_splits)

lemma fits_default: "fits Vector_default"
  by (simp add: fits_def Vector_default_def)

lemma fits_sized: "Vector_sized et n = Inr (v, es) \<Longrightarrow> fits v"
  by (auto simp: Vector_sized_def Let_def and_then_eq_Inr fits_def set_buffer_def
      dest!: RawMemory_new_capacity simp del: and_then_Inr)

lemma fits_copy: "Vector_copy et w = Inr (v, es) \<Longrightarrow> fits v"
  by (auto simp: Vector_copy_def Let_def and_then_eq_Inr fits_def set_buffer_def
      dest!: RawMemory_new_capacity simp del: and_then_Inr)

lemma fits_Reserve:
  "fits v \<Longrightarrow> Reserve et v n = Inr (v', es) \<Longrightarrow> fits v' \<and> n \<le> capacity_m (data_m v') \<and> size_m v' = size_m v"
  by (auto simp: Reserve_def Let_def and_then_eq_Inr fits_def
      dest!: RawMemory_new_capacity split: if_splits simp del: and_then_Inr)

lemma fits_Resize: "fits v \<Longrightarrow> Resize et v n = Inr (v', es) \<Longrightarrow> fits v'"
  by (auto simp: Resize_def and_then_eq_Inr fits_def set_buffer_def
      dest!: fits_Reserve [unfolded fits_def, rotated] split: if_splits)

lemma fits_EmplaceBack: "fits v \<Longrightarrow> EmplaceBack et v args = Inr ((v', r), es) \<Longrightarrow> fits v'"
  by (auto simp: EmplaceBack_def Let_def and_then_eq_Inr fits_def
      set_buffer_def Capacity_def RawMemory_index_def
      dest!: RawMemory_new_capacity split: if_splits simp del: and_then_Inr)

lemma fits_PushBack: "fits v \<Longrightarrow> PushBack et v x = Inr (v', es) \<Longrightarrow> fits v'"
  by (auto simp: PushBack_def and_then_eq_Inr simp del: and_then_Inr dest: fits_EmplaceBack)

lemma fits_PushBack_rvalue:
  "fits v \<Longrightarrow> PushBack_rvalue et v x = Inr (v', es) \<Longrightarrow> fits v'"
  by (auto simp: PushBack_rvalue_def and_then_eq_Inr simp del: and_then_Inr
      dest: fits_EmplaceBack)

lemma fits_PopBack: "PopBack v = Inr (v', es) \<Longrightarrow> fits v'"
  by (auto simp: PopBack_def Let_def and_then_eq_Inr fits_def set_buffer_def
      RawMemory_plus_def split: if_splits)

lemma fits_Emplace:
  assumes "fits v" and "Emplace et v pos args = Inr ((v', r), es)"
  shows "fits v'"
proof (cases "size_m v = capacity_m (data_m v)")
  case True
  have "Suc (size_m v) \<le> (if size_m v = 0 then 1 else size_m v * 2)"
    by simp
  with assms(2) True show ?thesis
    unfolding Emplace_def Let_def fits_def
    by (auto simp: and_then_eq_Inr dest!: RawMemory_new_capacity simp del: and_then_Inr)
next
  case False
  with assms(1) have "Suc (size_m v) \<le> capacity_m (data_m v)"
    by (simp add: fits_def)
  with assms(2) False show ?thesis
    unfolding Emplace_def Let_def fits_def
    by (cases "size_m v = 0") (auto simp: and_then_eq_Inr set_buffer_def simp del: and_then_Inr)
qed

lemma fits_Erase: "fits v \<Longrightarrow> Erase et v pos = Inr ((v', r), es) \<Longrightarrow> fits v'"
  by (auto simp: Erase_def Let_def and_then_eq_Inr fits_def set_buffer_def std_move_def
      begin_it_def end_it_def RawMemory_plus_def size_t_sub_def split: if_splits)

lemma fits_assign_copy:
  assumes "st this = Some v" and "st rhs = Some r" and "this \<noteq> rhs"
    and "Vector_assign_copy et st this rhs = Inr (st', es)"
  shows "\<exists>v'. st' = st(this \<mapsto> v') \<and> fits v'"
proof (cases "size_m r > capacity_m (data_m v)")
  case True
  with assms show ?thesis
    unfolding Vector_assign_copy_def
    by (auto simp: and_then_eq_Inr dest: fits_copy simp del: and_then_Inr)
next
  case False
  with assms show ?thesis
    unfolding Vector_assign_copy_def
    by (auto simp: and_then_eq_Inr fits_def set_buffer_def simp del: and_then_Inr)
qed

lemma all_fit_update: "all_fit st \<Longrightarrow> fits v \<Longrightarrow> all_fit (st(a \<mapsto> v))"
  by (simp add: all_fit_def)

lemma all_fit_at: "all_fit st \<Longrightarrow> st a = Some v \<Longrightarrow> fits v"
  by (auto simp: all_fit_def)

lemma all_fit_copy_construct:
  "all_fit st \<Longrightarrow> Vector_copy_construct et st a b = Inr (st', es) \<Longrightarrow> all_fit st'"
  by (auto simp: Vector_copy_construct_def and_then_eq_Inr all_fit_def
      dest: fits_copy split: option.splits if_splits simp del: and_then_Inr)

lemma all_fit_move_construct:
  "all_fit st \<Longrightarrow> Vector_move_construct st a b = Inr (st', es) \<Longrightarrow> all_fit st'"
  by (auto simp: Vector_move_construct_def Vector_move_def all_fit_def fits_default
      split: option.splits)

lemma all_fit_assign_move:
  "all_fit st \<Longrightarrow> Vector_assign_move st a b = Inr (st', es) \<Longrightarrow> all_fit st'"
  by (auto simp: Vector_assign_move_def all_fit_def split: option.splits)

lemma all_fit_Swap:
  "all_fit st \<Longrightarrow> Vector_Swap st a b = Inr (st', es) \<Longrightarrow> all_fit st'"
  by (auto simp: Vector_Swap_def all_fit_def split: option.splits)

lemma all_fit_assign_copy:
  assumes "all_fit st" and "Vector_assign_copy et st a b = Inr (st', es)"
  shows "all_fit st'"
proof (cases "a = b")
  case True
  with assms show ?thesis
    by (simp add: Vector_assign_copy_def)
next
  case False
  from assms(2) False obtain v r where "st a = Some v" "st b = Some r"
    by (auto simp: Vector_assign_copy_def split: option.splits)
  from fits_assign_copy [OF this False assms(2)] assms(1) show ?thesis
    by (auto intro: all_fit_update)
qed

lemma all_fit_step:
  "all_fit st \<Longrightarrow> st a = Some v \<Longrightarrow> (fits v \<Longrightarrow> fits v') \<Longrightarrow> all_fit (st(a \<mapsto> v'))"
  by (auto simp: all_fit_def)

lemma fits_Reserve_only: "fits v \<Longrightarrow> Reserve et v n = Inr (v', es) \<Longrightarrow> fits v'"
  by (simp add: fits_Reserve)

lemma fits_Insert: "fits v \<Longrightarrow> Insert et v pos x = Inr ((v', r), es) \<Longrightarrow> fits v'"
  unfolding Insert_def by (rule fits_Emplace)

lemma fits_Insert_rvalue:
  "fits v \<Longrightarrow> Insert_rvalue et v pos x = Inr ((v', r), es) \<Longrightarrow> fits v'"
  unfolding Insert_rvalue_def by (rule fits_Emplace)

lemma reachable_all_fit: "reachable et st \<Longrightarrow> all_fit st"
proof (induction rule: reachable.induct)
  case no_objects
  show ?case by (simp add: all_fit_def)
next
  case (constructed_default st a)
  then show ?case by (intro all_fit_update fits_default)
next
  case (constructed_sized st a n v es)
  show ?case
    by (rule all_fit_update [OF constructed_sized.IH fits_sized [OF constructed_sized.hyps(3)]])
next
  case (constructed_copy st a b st' es)
  then show ?case by (simp add: all_fit_copy_construct)
next
  case (constructed_move st a b st' es)
  then show ?case by (simp add: all_fit_move_construct)
next
  case (assigned_copy st a b st' es)
  then show ?case by (simp add: all_fit_assign_copy)
next
  case (assigned_move st a b st' es)
  then show ?case by (simp add: all_fit_assign_move)
next
  case (swapped st a b st' es)
  then show ?case by (simp add: all_fit_Swap)
next
  case (destroyed st a v u es)
  then show ?case by (simp add: all_fit_def)
next
  case (reserved st a v n v' es)
  show ?case
    by (rule all_fit_step [OF reserved.IH reserved.hyps(2)])
      (rule fits_Reserve_only [OF _ reserved.hyps(3)])
next
  case (resized st a v n v' es)
  show ?case
    by (rule all_fit_step [OF resized.IH resized.hyps(2)])
      (rule fits_Resize [OF _ resized.hyps(3)])
next
  case (pushed_back st a v x v' es)
  show ?case
    by (rule all_fit_step [OF pushed_back.IH pushed_back.hyps(2)])
      (rule fits_PushBack [OF _ pushed_back.hyps(3)])
next
  case (pushed_back_rvalue st a v x v' es)
  show ?case
    by (rule all_fit_step [OF pushed_back_rvalue.IH pushed_back_rvalue.hyps(2)])
      (rule fits_PushBack_rvalue [OF _ pushed_back_rvalue.hyps(3)])
next
  case (emplaced_back st a v args v' r es)
  show ?case
    by (rule all_fit_step [OF emplaced_back.IH emplaced_back.hyps(2)])
      (rule fits_EmplaceBack [OF _ emplaced_back.hyps(3)])
next
  case (inserted st a v pos x v' r es)
  show ?case
    by (rule all_fit_step [OF inserted.IH inserted.hyps(2)])
      (rule fits_Insert [OF _ inserted.hyps(3)])
next
  case (inserted_rvalue st a v pos x v' r es)
  show ?case
    by (rule all_fit_step [OF inserted_rvalue.IH inserted_rvalue.hyps(2)])
      (rule fits_Insert_rvalue [OF _ inserted_rvalue.hyps(3)])
next
  case (emplaced st a v pos args v' r es)
  show ?case
    by (rule all_fit_step [OF emplaced.IH emplaced.hyps(2)])
      (rule fits_Emplace [OF _ emplaced.hyps(3)])
next
  case (erased st a v pos v' r es)
  show ?case
    by (rule all_fit_step [OF erased.IH erased.hyps(2)])
      (rule fits_Erase [OF _ erased.hyps(3)])
next
  case (popped_back st a v v' es)
  show ?case
    by (rule all_fit_update [OF popped_back.IH fits_PopBack [OF popped_back.hyps(3)]])
qed

section \<open>Constructors, Resize, PopBack and copy assignment\<close>

lemma Vector_sized_mk:
  assumes "allocates et n"
  shows "Vector_sized et n =
     Inr (mk (replicate n (value_init et)) 0, replicate n ValueConstructed)"
proof -
  note new = RawMemory_new_allocates [OF assms]
  have loop: "uninitialized_value_construct_n et (replicate n None) 0 n =
      Inr (replicate n (Some (value_init et)), replicate n ValueConstructed)"
    using uninitialized_value_construct_n_segment [of et "[]" "replicate n None" "[]"]
    by simp
  have shape: "set_buffer \<lparr>data_m = \<lparr>buffer_m = replicate n None, capacity_m = n\<rparr>, size_m = n\<rparr>
        (replicate n (Some (value_init et))) = mk (replicate n (value_init et)) 0"
    by (simp add: mk_def set_buffer_def)
  show ?thesis
    by (simp add: Vector_sized_def Let_def new loop shape ok_def)
qed

lemma Vector_copy_mk:
  assumes "allocates et (length xs)"
  shows "Vector_copy et (mk xs k) = Inr (mk xs 0, replicate (length xs) CopyConstructed)"
proof -
  note new = RawMemory_new_allocates [OF assms]
  have loop: "uninitialized_copy_n (map Some xs @ replicate k None) 0 (length xs)
        (replicate (length xs) None) 0 =
      Inr (map Some xs, replicate (length xs) CopyConstructed)"
    using uninitialized_copy_n_segment [where mid = "replicate (length xs) None" and bs = xs
        and spre = "[]" and spost = "replicate k None" and dpre = "[]" and dpost = "[]"]
    by simp
  have shape: "set_buffer \<lparr>data_m = \<lparr>buffer_m = replicate (length xs) None,
        capacity_m = length xs\<rparr>, size_m = length xs\<rparr> (map Some xs) = mk xs 0"
    by (simp add: mk_def set_buffer_def)
  show ?thesis
    by (simp add: Vector_copy_def Let_def new loop shape ok_def)
qed

lemma PopBack_mk:
  "PopBack (mk (xs @ [x]) k) = Inr (mk xs (Suc k), [Destroyed])"
proof -
  have de: "destroy_at (map Some xs @ Some x # replicate k None) (length xs) =
      Inr (map Some xs @ None # replicate k None, [Destroyed])"
    by (simp add: destroy_at_def)
  have shape: "set_buffer (mk (xs @ [x]) k\<lparr>size_m := length xs\<rparr>)
        (map Some xs @ None # replicate k None) = mk xs (Suc k)"
    by (simp add: mk_def set_buffer_def)
  show ?thesis
    by (simp add: PopBack_def Let_def RawMemory_plus_def de shape ok_def)
qed

lemma PopBack_mk_empty: "PopBack (mk [] k) \<noteq> Inr r"
  by (simp add: PopBack_def Let_def RawMemory_plus_def size_t_sub_def destroy_at_def load_def)

lemma Resize_mk_shrink:
  assumes "n < length xs"
  shows "Resize et (mk xs k) n =
     Inr (mk (take n xs) (length xs - n + k), replicate (length xs - n) Destroyed)"
proof -
  have "destroy_n (map Some (take n xs) @ map Some (drop n xs) @ replicate k None)
        (length (map Some (take n xs))) (length (drop n xs)) =
      Inr (map Some (take n xs) @ replicate (length (drop n xs)) None @ replicate k None,
           replicate (length (drop n xs)) Destroyed)"
    by (rule destroy_n_segment)
  moreover have "map Some (take n xs) @ map Some (drop n xs) = map Some xs"
    by (simp add: map_append [symmetric] del: map_append)
  ultimately have loop: "destroy_n (map Some xs @ replicate k None) n (length xs - n) =
      Inr (map Some (take n xs) @ replicate (length xs - n) None @ replicate k None,
           replicate (length xs - n) Destroyed)"
    using assms by (simp add: append_assoc [symmetric] del: append_assoc)
  have shape: "(set_buffer (mk xs k)
        (map Some (take n xs) @ replicate (length xs - n) None @ replicate k None))
        \<lparr>size_m := n\<rparr> = mk (take n xs) (length xs - n + k)"
    using assms by (simp add: mk_def set_buffer_def replicate_add [symmetric])
  show ?thesis
    using assms by (simp add: Resize_def RawMemory_plus_def loop shape ok_def)
qed

lemma Resize_mk_same: "Resize et (mk xs k) (length xs) = Inr (mk xs k, [])"
  by (simp add: Resize_def ok_def mk_def)

lemma Resize_mk_grow:
  assumes "length xs < n" and "length xs + k < n \<Longrightarrow> allocates et n"
  shows "\<exists>k' es. Resize et (mk xs k) n =
     Inr (mk (xs @ replicate (n - length xs) (value_init et)) k', es)"
proof -
  obtain k1 es1 where res: "Reserve et (mk xs k) n = Inr (mk xs k1, es1)"
    and cap: "n \<le> length xs + k1"
    using Reserve_mk_small [of n xs k et] Reserve_mk_grow [of xs k n et] assms(2)
    by (cases "n \<le> length xs + k") auto
  define m where "m = n - length xs"
  define k' where "k' = k1 - m"
  have k1: "k1 = m + k'"
    using cap by (simp add: m_def k'_def)
  have "uninitialized_value_construct_n et (map Some xs @ replicate m None @ replicate k' None)
        (length (map Some xs)) (length (replicate m (None :: 'a option))) =
      Inr (map Some xs @ replicate (length (replicate m (None :: 'a option)))
             (Some (value_init et)) @ replicate k' None,
           replicate (length (replicate m (None :: 'a option))) ValueConstructed)"
    by (rule uninitialized_value_construct_n_segment)
  then have loop: "uninitialized_value_construct_n et (map Some xs @ replicate k1 None)
        (length xs) m =
      Inr (map Some xs @ replicate m (Some (value_init et)) @ replicate k' None,
           replicate m ValueConstructed)"
    by (simp add: k1 replicate_add)
  have shape: "(set_buffer (mk xs k1)
        (map Some xs @ replicate m (Some (value_init et)) @ replicate k' None))
        \<lparr>size_m := n\<rparr> = mk (xs @ replicate m (value_init et)) k'"
    using assms by (simp add: mk_def set_buffer_def k1 m_def)
  have "Resize et (mk xs k) n =
      Inr (mk (xs @ replicate m (value_init et)) k', es1 @ replicate m ValueConstructed)"
    using assms(1) cap
    by (simp add: Resize_def res RawMemory_plus_def loop [unfolded m_def] shape [unfolded m_def]
        m_def ok_def)
  then show ?thesis
    unfolding m_def by blast
qed

lemma data_m_mk:
  "data_m (mk xs k) = \<lparr>buffer_m = map Some xs @ replicate k None, capacity_m = length xs + k\<rparr>"
  by (simp add: mk_def)

lemma assign_elements_segment:
  assumes "length new = length old" and "length rpre = length pre"
    and "length pre + length old \<le> c"
  shows "assign_elements (mk (rpre @ new @ rpost) kr)
           \<lparr>buffer_m = pre @ map Some old @ post, capacity_m = c\<rparr> (length pre) (length old) =
         Inr (pre @ map Some new @ post, replicate (length old) CopyAssigned)"
  using assms
proof (induction old arbitrary: new pre rpre)
  case Nil
  then show ?case by (simp add: ok_def)
next
  case (Cons x old)
  then obtain y new' where new: "new = y # new'" and len: "length new' = length old"
    by (cases new) auto
  have ca: "copy_assign (map Some rpre @ Some y # map Some new' @ map Some rpost @
        replicate kr None) (length pre) (pre @ Some x # map Some old @ post) (length pre) =
      Inr (pre @ Some y # map Some old @ post, [CopyAssigned])"
    using Cons.prems(2) by (simp add: copy_assign_def)
  have rest: "assign_elements (mk (rpre @ y # new' @ rpost) kr)
        \<lparr>buffer_m = pre @ Some y # map Some old @ post, capacity_m = c\<rparr>
        (Suc (length pre)) (length old) =
      Inr (pre @ Some y # map Some new' @ post, replicate (length old) CopyAssigned)"
    using Cons.IH [of new' "rpre @ [y]" "pre @ [Some y]"] len Cons.prems(2,3) by simp
  show ?case
    using Cons.prems(2,3)
    by (simp add: new RawMemory_index_def ca rest)
qed

lemma Vector_destroy_mk:
  "Vector_destroy (mk xs k) = Inr ((), replicate (length xs) Destroyed)"
  using destroy_n_segment [of "[]" xs "replicate k None"]
  by (simp add: Vector_destroy_def ok_def)

lemma Vector_assign_copy_mk:
  assumes "st this = Some (mk xs k)" and "st rhs = Some (mk rs kr)" and "this \<noteq> rhs"
    and "length xs + k < length rs \<Longrightarrow> allocates et (length rs)"
  shows "\<exists>k' es. Vector_assign_copy et st this rhs = Inr (st(this \<mapsto> mk rs k'), es)"
proof -
  consider (realloc) "length xs + k < length rs"
    | (shrink) "length rs \<le> length xs + k" "length rs < length xs"
    | (extend) "length rs \<le> length xs + k" "length xs \<le> length rs"
    by linarith
  then show ?thesis
  proof cases
    case realloc
    note copy = Vector_copy_mk [OF assms(4) [OF realloc], of kr]
    from assms(1-3) realloc have "Vector_assign_copy et st this rhs =
        Inr (st(this \<mapsto> mk rs 0),
             replicate (length rs) CopyConstructed @ replicate (length xs) Destroyed)"
      by (simp add: Vector_assign_copy_def copy Vector_destroy_mk ok_def)
    then show ?thesis by blast
  next
    case shrink
    let ?n = "length rs"
    have "assign_elements (mk ([] @ rs @ []) kr)
        \<lparr>buffer_m = [] @ map Some (take ?n xs) @ (map Some (drop ?n xs) @ replicate k None),
          capacity_m = length xs + k\<rparr> (length ([] :: 'a option list)) (length (take ?n xs)) =
      Inr ([] @ map Some rs @ (map Some (drop ?n xs) @ replicate k None),
           replicate (length (take ?n xs)) CopyAssigned)"
      using shrink by (intro assign_elements_segment) simp_all
    moreover have "map Some (take ?n xs) @ map Some (drop ?n xs) = map Some xs"
      by (simp add: map_append [symmetric] del: map_append)
    ultimately have loop: "assign_elements (mk rs kr) (data_m (mk xs k)) 0 ?n =
        Inr (map Some rs @ map Some (drop ?n xs) @ replicate k None, replicate ?n CopyAssigned)"
      using shrink by (simp add: data_m_mk append_assoc [symmetric] del: append_assoc)
    have de: "destroy_n (map Some rs @ map Some (drop ?n xs) @ replicate k None) ?n
          (length xs - ?n) =
        Inr (map Some rs @ replicate (length xs - ?n) None @ replicate k None,
             replicate (length xs - ?n) Destroyed)"
      using destroy_n_segment [of "map Some rs" "drop ?n xs" "replicate k None"] by simp
    have shape: "(set_buffer (mk xs k)
          (map Some rs @ replicate (length xs - ?n) None @ replicate k None))
          \<lparr>size_m := ?n\<rparr> = mk rs (length xs - ?n + k)"
      using shrink by (simp add: mk_def set_buffer_def replicate_add [symmetric])
    have "Vector_assign_copy et st this rhs =
        Inr (st(this \<mapsto> mk rs (length xs - ?n + k)),
             replicate ?n CopyAssigned @ replicate (length xs - ?n) Destroyed)"
      using assms(1-3) shrink
      by (simp add: Vector_assign_copy_def loop RawMemory_plus_def de shape ok_def)
    then show ?thesis by blast
  next
    case extend
    let ?n = "length xs"
    define m where "m = length rs - ?n"
    define k' where "k' = k - m"
    have k: "k = m + k'" and lrs: "length rs = ?n + m"
      using extend by (simp_all add: m_def k'_def)
    have "assign_elements (mk ([] @ take ?n rs @ drop ?n rs) kr)
        \<lparr>buffer_m = [] @ map Some xs @ replicate k None, capacity_m = length xs + k\<rparr>
        (length ([] :: 'a option list)) (length xs) =
      Inr ([] @ map Some (take ?n rs) @ replicate k None, replicate (length xs) CopyAssigned)"
      using extend by (intro assign_elements_segment) simp_all
    then have loop: "assign_elements (mk rs kr) (data_m (mk xs k)) 0 ?n =
        Inr (map Some (take ?n rs) @ replicate k None, replicate ?n CopyAssigned)"
      by (simp add: data_m_mk)
    have "uninitialized_copy_n (map Some (take ?n rs) @ map Some (drop ?n rs) @ replicate kr None)
          (length (map Some (take ?n rs))) (length (drop ?n rs))
          (map Some (take ?n rs) @ replicate m None @ replicate k' None)
          (length (map Some (take ?n rs))) =
        Inr (map Some (take ?n rs) @ map Some (drop ?n rs) @ replicate k' None,
             replicate (length (drop ?n rs)) CopyConstructed)"
      by (intro uninitialized_copy_n_segment) (simp add: m_def)
    moreover have "map Some (take ?n rs) @ map Some (drop ?n rs) = map Some rs"
      by (simp add: map_append [symmetric] del: map_append)
    ultimately have cp: "uninitialized_copy_n (map Some rs @ replicate kr None) ?n m
          (map Some (take ?n rs) @ replicate k None) ?n =
        Inr (map Some rs @ replicate k' None, replicate m CopyConstructed)"
      using extend
      by (simp add: k replicate_add m_def [symmetric] append_assoc [symmetric]
          del: append_assoc)
    have shape: "(set_buffer (mk xs k) (map Some rs @ replicate k' None))
          \<lparr>size_m := length rs\<rparr> = mk rs k'"
      by (simp add: mk_def set_buffer_def k lrs)
    have "Vector_assign_copy et st this rhs =
        Inr (st(this \<mapsto> mk rs k'),
             replicate ?n CopyAssigned @ replicate (length rs - ?n) CopyConstructed)"
      using assms(1-3) extend
      by (simp add: Vector_assign_copy_def loop RawMemory_plus_def cp [unfolded m_def]
          shape ok_def)
    then show ?thesis by blast
  qed
qed


section \<open>The class invariant is preserved\<close>

lemma Erase_mk_invalid:
  "length xs \<le> pos \<Longrightarrow> Erase et (mk xs k) pos = Inl UndefinedBehaviour"
  by (simp add: Erase_def Let_def std_move_def)

text \<open>The operations that allocate keep the invariant when the request is granted in
  full.\<close>

lemma wf_preserved:
  "wf (Vector_default :: 'a Vector)"
  "allocates et n \<Longrightarrow> Vector_sized et n = Inr (v', es) \<Longrightarrow> wf v'"
  "wf v \<Longrightarrow> allocates et (Size v) \<Longrightarrow> Vector_copy et v = Inr (v', es) \<Longrightarrow> wf v'"
  "wf v \<Longrightarrow> allocates et n \<Longrightarrow> Reserve et v n = Inr (v', es) \<Longrightarrow> wf v'"
  "wf v \<Longrightarrow> allocates et n \<Longrightarrow> Resize et v n = Inr (v', es) \<Longrightarrow> wf v'"
  "wf v \<Longrightarrow> allocates et (if Size v = 0 then 1 else Size v * 2) \<Longrightarrow>
     EmplaceBack et v a = Inr ((v', r), es) \<Longrightarrow> wf v'"
  "wf v \<Longrightarrow> allocates et (if Size v = 0 then 1 else Size v * 2) \<Longrightarrow>
     PushBack et v x = Inr (v', es) \<Longrightarrow> wf v'"
  "wf v \<Longrightarrow> allocates et (if Size v = 0 then 1 else Size v * 2) \<Longrightarrow>
     PushBack_rvalue et v x = Inr (v', es) \<Longrightarrow> wf v'"
  "wf v \<Longrightarrow> allocates et (if Size v = 0 then 1 else Size v * 2) \<Longrightarrow> pos \<le> Size v \<Longrightarrow>
     Emplace et v pos a = Inr ((v', r), es) \<Longrightarrow> wf v'"
  "wf v \<Longrightarrow> Erase et v pos = Inr ((v', r), es) \<Longrightarrow> wf v'"
  "wf v \<Longrightarrow> PopBack v = Inr (v', es) \<Longrightarrow> wf v'"
proof -
  show "wf (Vector_default :: 'a Vector)"
    by (simp add: Vector_default_mk)
  show "allocates et n \<Longrightarrow> Vector_sized et n = Inr (v', es) \<Longrightarrow> wf v'"
    by (auto simp: Vector_sized_mk)
  show "wf v \<Longrightarrow> allocates et (Size v) \<Longrightarrow> Vector_copy et v = Inr (v', es) \<Longrightarrow> wf v'"
    by (erule wf_cases) (auto simp: Vector_copy_mk)
  show "wf v \<Longrightarrow> allocates et n \<Longrightarrow> Reserve et v n = Inr (v', es) \<Longrightarrow> wf v'"
  proof (erule wf_cases)
    fix xs k
    assume "allocates et n" "Reserve et v n = Inr (v', es)" "v = mk xs k"
    then show "wf v'"
      by (cases "n \<le> length xs + k") (auto simp: Reserve_mk_small Reserve_mk_grow)
  qed
  show "wf v \<Longrightarrow> allocates et n \<Longrightarrow> Resize et v n = Inr (v', es) \<Longrightarrow> wf v'"
  proof (erule wf_cases)
    fix xs k
    assume alloc: "allocates et n" and *: "Resize et v n = Inr (v', es)" "v = mk xs k"
    consider "n < length xs" | "n = length xs" | "length xs < n"
      by linarith
    then show "wf v'"
    proof cases
      case 1
      with * show ?thesis by (auto simp: Resize_mk_shrink)
    next
      case 2
      with * show ?thesis by (auto simp: Resize_mk_same)
    next
      case 3
      from Resize_mk_grow [OF 3 alloc, of k] * show ?thesis by auto
    qed
  qed
  show eb: "wf v \<Longrightarrow> allocates et (if Size v = 0 then 1 else Size v * 2) \<Longrightarrow>
     EmplaceBack et v a = Inr ((v', r), es) \<Longrightarrow> wf v'" for a v' r es
  proof (erule wf_cases)
    fix xs k
    assume alloc: "allocates et (if Size v = 0 then 1 else Size v * 2)"
      and *: "EmplaceBack et v a = Inr ((v', r), es)" "v = mk xs k"
    from alloc *(2) have "allocates et (if xs = [] then 1 else length xs * 2)"
      by (simp cong: if_cong)
    from EmplaceBack_mk_full [OF this, of a] * show "wf v'"
      by (cases k) (auto simp: EmplaceBack_mk_spare)
  qed
  show "wf v \<Longrightarrow> allocates et (if Size v = 0 then 1 else Size v * 2) \<Longrightarrow>
     PushBack et v x = Inr (v', es) \<Longrightarrow> wf v'"
    by (auto simp: PushBack_def and_then_eq_Inr simp del: and_then_Inr dest: eb)
  show "wf v \<Longrightarrow> allocates et (if Size v = 0 then 1 else Size v * 2) \<Longrightarrow>
     PushBack_rvalue et v x = Inr (v', es) \<Longrightarrow> wf v'"
    by (auto simp: PushBack_rvalue_def and_then_eq_Inr simp del: and_then_Inr dest: eb)
  show "wf v \<Longrightarrow> allocates et (if Size v = 0 then 1 else Size v * 2) \<Longrightarrow> pos \<le> Size v \<Longrightarrow>
     Emplace et v pos a = Inr ((v', r), es) \<Longrightarrow> wf v'"
  proof (erule wf_cases)
    fix xs k
    assume alloc: "allocates et (if Size v = 0 then 1 else Size v * 2)"
      and *: "pos \<le> Size v" "Emplace et v pos a = Inr ((v', r), es)" "v = mk xs k"
    from alloc *(3) have alloc': "allocates et (if xs = [] then 1 else length xs * 2)"
      by (simp cong: if_cong)
    show "wf v'"
    proof (cases k)
      case 0
      with * Emplace_mk_full_at [OF _ alloc', of pos a] show ?thesis by auto
    next
      case (Suc k')
      consider "pos < length xs" | "pos = length xs" "xs \<noteq> []" | "pos = 0" "xs = []"
        using * by (cases xs) (auto simp: le_less)
      then show ?thesis
      proof cases
        case 1
        with * Suc show ?thesis by (auto simp: Emplace_mk_inner_at)
      next
        case 2
        with * Suc show ?thesis by (auto simp: Emplace_mk_end_spare)
      next
        case 3
        with * Suc show ?thesis by (auto simp: Emplace_mk_empty_spare)
      qed
    qed
  qed
  show "wf v \<Longrightarrow> Erase et v pos = Inr ((v', r), es) \<Longrightarrow> wf v'"
  proof (erule wf_cases)
    fix xs k
    assume "Erase et v pos = Inr ((v', r), es)" "v = mk xs k"
    then show "wf v'"
      by (cases "pos < length xs") (auto simp: Erase_mk_at Erase_mk_invalid)
  qed
  show "wf v \<Longrightarrow> PopBack v = Inr (v', es) \<Longrightarrow> wf v'"
  proof (erule wf_cases)
    fix xs k
    assume *: "PopBack v = Inr (v', es)" "v = mk xs k"
    show "wf v'"
    proof (cases xs rule: rev_cases)
      case Nil
      with * show ?thesis
        by (simp add: PopBack_mk_empty)
    next
      case (snoc ys y)
      with * show ?thesis by (auto simp: PopBack_mk)
    qed
  qed
qed

lemma wf_assign_copy:
  assumes "wf v" and "wf r" and "st this = Some v" and "st rhs = Some r"
    and "Vector_assign_copy et st this rhs = Inr (st', es)"
    and "Capacity v < Size r \<Longrightarrow> allocates et (Size r)"
  shows "\<exists>v'. st' = st(this \<mapsto> v') \<and> wf v' \<and> elements v' = elements r"
proof (cases "this = rhs")
  case True
  with assms have "st' = st" "v = r"
    by (simp_all add: Vector_assign_copy_def)
  with assms(1,3) show ?thesis
    by (intro exI [of _ v]) (auto simp: fun_upd_idem)
next
  case False
  obtain xs k rs kr where "v = mk xs k" "r = mk rs kr"
    using assms(1,2) by (elim wf_cases)
  with Vector_assign_copy_mk [of st this xs k rhs rs kr et] assms(3-6) False show ?thesis
    by auto
qed

section \<open>Allocations that are not granted in full\<close>

lemma allocates_movable: "n \<le> 512 \<Longrightarrow> allocates movable n"
  by (simp add: allocates_def movable_def SIZE_MAX_def)

text \<open>When \<^verbatim>\<open>operator new\<close> throws, \<^verbatim>\<open>Reserve\<close> beyond the capacity throws and the container
  is as it was.\<close>

lemma Reserve_refused:
  assumes "Capacity v < n"
    and "\<not> new_succeeds et ((n * sizeof_T et) mod (SIZE_MAX + 1))"
  shows "Reserve et v n = Inl BadAlloc"
proof -
  from assms(1) have "n \<noteq> 0" by simp
  then have "RawMemory_new et n = Inl BadAlloc"
    using assms(2) by (rule RawMemory_new_refused)
  with assms(1) show ?thesis
    by (simp add: Reserve_def Capacity_def)
qed

text \<open>For an element type of 8 bytes, \<^verbatim>\<open>Reserve(1 << 60)\<close> asks for \<open>2^63\<close> bytes, which the
  heap refuses, and \<^verbatim>\<open>Reserve(1 << 61)\<close> asks for \<open>2^64 mod 2^64 = 0\<close> bytes: the block
  returned has room for no object and the relocation writes past it.\<close>

lemma Reserve_wrapped_byte_count:
  "Reserve movable spare_vector (2 ^ 60) = Inl BadAlloc"
  "Reserve movable spare_vector (2 ^ 61) = Inl UndefinedBehaviour"
  by code_simp+

section \<open>The scenario of the specification\<close>

lemma scenario_result:
  "scenario =
     Inr (\<lparr>data_m = \<lparr>buffer_m = [Some 1, Some 9, None, None], capacity_m = 4\<rparr>, size_m = 2\<rparr>,
          [CopyConstructed, CopyConstructed, MoveConstructed, Destroyed,
           CopyConstructed, MoveConstructed, MoveConstructed, Destroyed, Destroyed,
           CopyConstructed, MoveConstructed, MoveAssigned, MoveAssigned, Destroyed,
           MoveAssigned, Destroyed, Destroyed])"
  by code_simp

section \<open>C1: pushing onto an empty container\<close>

text \<open>Claim C1. For every sequence of \<open>N\<close> values pushed by \<^verbatim>\<open>PushBack\<close> (either
  overload) onto a default-constructed container, when the allocations that the pushes
  ask for are granted in full (blocks of \<open>1, 2, 4, \<dots>\<close> objects, the powers of two below
  \<open>2 * N\<close>: the byte count is a \<^verbatim>\<open>size_t\<close> value and \<^verbatim>\<open>operator new\<close> returns), the pushes
  return, \<^verbatim>\<open>Size()\<close> is \<open>N\<close> and \<^verbatim>\<open>operator[](i)\<close> is the \<open>i\<close>-th pushed value, for every
  \<open>i\<close> below \<open>N\<close>.\<close>

theorem push_all_default:
  assumes "\<forall>i. 2 ^ i < 2 * length ps \<longrightarrow> allocates et (2 ^ i)"
  shows "\<exists>v es. push_all et Vector_default ps = Inr (v, es) \<and> wf v \<and> Size v = length ps \<and>
     (\<forall>i < length ps. Vector_index v i = Inr (pushed_value (ps ! i), []))"
proof -
  obtain k es where run: "push_all et (mk [] 0) ps = Inr (mk (map pushed_value ps) k, es)"
    using push_all_mk [where xs = "[]" and ps = ps and et = et and k = 0] assms by auto
  show ?thesis
    by (simp add: Vector_default_mk run Vector_index_mk)
qed

theorem push_all_default_witness:
  "allocates movable 1 \<and> allocates movable 2 \<and> allocates movable 4 \<and>
   (\<exists>v es. push_all movable Vector_default [Lvalue 1, Rvalue 2, Lvalue 3] = Inr (v, es) \<and>
     wf v \<and> Size v = 3 \<and>
     Vector_index v 0 = Inr (1, []) \<and> Vector_index v 1 = Inr (2, []) \<and>
     Vector_index v 2 = Inr (3, []))"
proof -
  let ?ps = "[Lvalue 1, Rvalue 2, Lvalue (3::nat)]"
  have alloc: "\<forall>i. 2 ^ i < 2 * length ?ps \<longrightarrow> allocates movable (2 ^ i)"
    by (simp add: allocates_movable)
  obtain v es where run: "push_all movable Vector_default ?ps = Inr (v, es)" "wf v"
    and sz: "Size v = length ?ps"
    and ix: "\<And>i. i < length ?ps \<Longrightarrow> Vector_index v i = Inr (pushed_value (?ps ! i), [])"
    using push_all_default [OF alloc] by blast
  have "Vector_index v 0 = Inr (1, [])" "Vector_index v 1 = Inr (2, [])"
    "Vector_index v 2 = Inr (3, [])"
    using ix [of 0] ix [of 1] ix [of 2] by simp_all
  with run sz show ?thesis by (auto simp: allocates_movable)
qed

section \<open>C2: move construction and move assignment\<close>

text \<open>Claim C2, as amended. Move construction from a container returns without an
  operation of \<^verbatim>\<open>T\<close>; the new container is in exactly the state the source was in (so it
  has the source's size and element sequence) and the source is in the default state,
  with \<^verbatim>\<open>Size() == 0\<close>. Move assignment returns without an operation of \<^verbatim>\<open>T\<close>; the
  target is in exactly the state the source was in, and the source is in the state the
  target was in: the two exchange their states.\<close>

theorem move_exchanges_state:
  "(st new = None \<and> st other = Some w \<longrightarrow>
      Vector_move_construct st new other = Inr (st(other \<mapsto> Vector_default, new \<mapsto> w), [])) \<and>
   (st this = Some v \<and> st rhs = Some u \<longrightarrow>
      Vector_assign_move st this rhs = Inr (st(rhs \<mapsto> v, this \<mapsto> u), [])) \<and>
   Size (Vector_default :: 'a Vector) = 0 \<and> elements (Vector_default :: 'a Vector) = []"
  for st :: "'a store"
  by (simp add: Vector_move_construct_def Vector_assign_move_def Vector_move_def ok_def
      Vector_default_mk)

theorem move_exchanges_state_witness:
  "two_vectors 2 = None \<and> two_vectors 1 = Some full_vector \<and>
   two_vectors 0 = Some short_vector \<and>
   Vector_move_construct two_vectors 2 1 =
     Inr (two_vectors(1 \<mapsto> Vector_default, 2 \<mapsto> full_vector), []) \<and>
   Vector_assign_move two_vectors 0 1 =
     Inr (two_vectors(1 \<mapsto> short_vector, 0 \<mapsto> full_vector), []) \<and>
   Size (Vector_default :: nat Vector) = 0 \<and> Size full_vector = 2 \<and>
   elements full_vector = [7, 8] \<and> Size short_vector = 1 \<and> elements short_vector = [5]"
proof -
  have s: "two_vectors 2 = None" "two_vectors 1 = Some full_vector"
    "two_vectors 0 = Some short_vector"
    by (simp_all add: two_vectors_def)
  have e: "Size short_vector = 1" "elements short_vector = [5]"
    by (simp_all add: short_vector_def Size_def elements_def)
  show ?thesis
    using s e move_exchanges_state [where st = two_vectors and new = 2 and other = 1
        and w = full_vector and this = 0 and rhs = 1 and v = short_vector and u = full_vector]
    by (simp add: example_facts)
qed

text \<open>Claim C2 as stated fails for move assignment: assigned to the container with
  element \<open>[5]\<close>, the source \<open>[7, 8]\<close> is left with \<^verbatim>\<open>Size() == 1\<close>.\<close>

theorem move_assignment_source_keeps_elements:
  "Vector_assign_move two_vectors 0 1 =
     Inr (two_vectors(1 \<mapsto> short_vector, 0 \<mapsto> full_vector), []) \<and>
   map_option Size ((two_vectors(1 \<mapsto> short_vector, 0 \<mapsto> full_vector)) 1) = Some 1"
  by (simp add: Vector_assign_move_def two_vectors_def ok_def short_vector_def Size_def)

section \<open>C3: Emplace at the end position\<close>

text \<open>Claim C3, evaluated where it fails. On the container with elements \<open>[7, 8]\<close> and a
  block of three slots, \<^verbatim>\<open>Emplace\<close> and both overloads of \<^verbatim>\<open>Insert\<close> at the end
  position call \<^verbatim>\<open>std::move_backward\<close> on the inverted range \<open>[end, end - 1)\<close>, which is
  undefined behaviour, while \<^verbatim>\<open>EmplaceBack\<close> of the same value returns the container
  with elements \<open>[7, 8, 9]\<close>.\<close>

theorem Emplace_at_end_of_spare_vector:
  "Emplace movable spare_vector 2 (CopyOf 9) = Inl UndefinedBehaviour \<and>
   Insert movable spare_vector 2 9 = Inl UndefinedBehaviour \<and>
   Insert_rvalue movable spare_vector 2 9 = Inl UndefinedBehaviour \<and>
   EmplaceBack movable spare_vector (CopyOf 9) =
     Inr ((\<lparr>data_m = \<lparr>buffer_m = [Some 7, Some 8, Some 9], capacity_m = 3\<rparr>, size_m = 3\<rparr>, 2),
          [CopyConstructed])"
  by code_simp

section \<open>C4: the relocation policy\<close>

text \<open>Claim C4. On every container that satisfies the class invariant, the operations of
  \<^verbatim>\<open>T\<close> that a relocation invokes (in \<^verbatim>\<open>Reserve\<close> beyond the capacity, and in
  \<^verbatim>\<open>EmplaceBack\<close> and \<^verbatim>\<open>Emplace\<close> on a full block, after the construction of the new
  element) are exactly \<^verbatim>\<open>Size()\<close> constructions followed by \<^verbatim>\<open>Size()\<close> destructions, and
  the constructions are all move constructions if the move constructor of \<^verbatim>\<open>T\<close> is
  non-throwing or \<^verbatim>\<open>T\<close> has no copy constructor, and all copy constructions
  otherwise. A relocation takes place when the new block is allocated: the request (for
  \<open>n\<close> objects in \<^verbatim>\<open>Reserve(n)\<close>, for \<^verbatim>\<open>size_ == 0 ? 1 : size_ * 2\<close> objects in the
  insertions) has a byte count that is a \<^verbatim>\<open>size_t\<close> value and \<^verbatim>\<open>operator new\<close> returns.\<close>

theorem relocation_policy:
  assumes "wf v"
  shows "let r = (if is_nothrow_move_constructible et \<or> \<not> is_copy_constructible et
                  then MoveConstructed else CopyConstructed);
             relocated = replicate (Size v) r @ replicate (Size v) Destroyed;
             grown = (if Size v = 0 then 1 else Size v * 2)
         in (Capacity v < n \<and> allocates et n \<longrightarrow>
               (\<exists>v'. Reserve et v n = Inr (v', relocated))) \<and>
            (Size v = Capacity v \<and> allocates et grown \<longrightarrow>
               (\<exists>v' p. EmplaceBack et v a = Inr ((v', p), init_event a # relocated))) \<and>
            (Size v = Capacity v \<and> pos \<le> Size v \<and> allocates et grown \<longrightarrow>
               (\<exists>v' p. Emplace et v pos a = Inr ((v', p), init_event a # relocated)))"
proof -
  obtain xs k where v: "v = mk xs k"
    using assms by (rule wf_cases)
  have grown: "(if Size v = 0 then 1 else Size v * 2) = (if xs = [] then 1 else length xs * 2)"
    by (simp add: v)
  show ?thesis
    unfolding Let_def relocation_event_def [symmetric] grown
    by (cases k) (simp_all add: v Reserve_mk_grow EmplaceBack_mk_full Emplace_mk_full_at)
qed

theorem relocation_policy_witness:
  "wf full_vector \<and> Capacity full_vector < 5 \<and> Size full_vector = Capacity full_vector \<and>
   1 \<le> Size full_vector \<and>
   allocates movable 5 \<and> allocates copy_only 5 \<and>
   allocates movable (if Size full_vector = 0 then 1 else Size full_vector * 2) \<and>
   allocates copy_only (if Size full_vector = 0 then 1 else Size full_vector * 2) \<and>
   (\<exists>v'. Reserve movable full_vector 5 =
      Inr (v', [MoveConstructed, MoveConstructed, Destroyed, Destroyed])) \<and>
   (\<exists>v'. Reserve copy_only full_vector 5 =
      Inr (v', [CopyConstructed, CopyConstructed, Destroyed, Destroyed])) \<and>
   (\<exists>v' p. EmplaceBack movable full_vector (FromArgs 9) =
      Inr ((v', p), [ArgsConstructed, MoveConstructed, MoveConstructed, Destroyed, Destroyed])) \<and>
   (\<exists>v' p. EmplaceBack copy_only full_vector (FromArgs 9) =
      Inr ((v', p), [ArgsConstructed, CopyConstructed, CopyConstructed, Destroyed, Destroyed])) \<and>
   (\<exists>v' p. Emplace movable full_vector 1 (FromArgs 9) =
      Inr ((v', p), [ArgsConstructed, MoveConstructed, MoveConstructed, Destroyed, Destroyed])) \<and>
   (\<exists>v' p. Emplace copy_only full_vector 1 (FromArgs 9) =
      Inr ((v', p), [ArgsConstructed, CopyConstructed, CopyConstructed, Destroyed, Destroyed]))"
proof -
  have t: "is_nothrow_move_constructible movable" "is_copy_constructible movable"
    "\<not> is_nothrow_move_constructible copy_only" "is_copy_constructible copy_only"
    by (simp_all add: movable_def copy_only_def)
  have a: "allocates movable 5" "allocates copy_only 5"
    "allocates movable (Suc (Suc (Suc (Suc 0))))" "allocates copy_only (Suc (Suc (Suc (Suc 0))))"
    by (simp_all add: allocates_def movable_def copy_only_def SIZE_MAX_def)
  show ?thesis
    using a relocation_policy [OF example_facts(5), of movable 5 "FromArgs 9" 1]
      relocation_policy [OF example_facts(5), of copy_only 5 "FromArgs 9" 1]
    by (simp add: example_facts Let_def t numeral_2_eq_2)
qed

section \<open>C5: Reserve\<close>

text \<open>Claim C5. On every container that satisfies the class invariant,
  \<^verbatim>\<open>Reserve(new_capacity)\<close> with \<open>new_capacity \<le> Capacity()\<close> returns the container as it
  was and invokes no operation of \<^verbatim>\<open>T\<close>; with \<open>new_capacity > Capacity()\<close>, when the
  allocation of \<open>new_capacity\<close> objects is granted in full (the byte count
  \<open>new_capacity * sizeof(T)\<close> is a \<^verbatim>\<open>size_t\<close> value and \<^verbatim>\<open>operator new\<close> returns), it
  returns a container of capacity exactly \<open>new_capacity\<close> with the same size and the
  same element values at every index. Without that condition the call does not return a
  container (lemmas \<open>Reserve_refused\<close>, \<open>Reserve_wrapped_byte_count\<close>).\<close>

theorem Reserve_capacity:
  assumes "wf v"
  shows "(new_capacity \<le> Capacity v \<longrightarrow> Reserve et v new_capacity = Inr (v, [])) \<and>
    (Capacity v < new_capacity \<and> allocates et new_capacity \<longrightarrow>
       (\<exists>v' es. Reserve et v new_capacity = Inr (v', es) \<and> wf v' \<and>
          Capacity v' = new_capacity \<and> Size v' = Size v \<and> elements v' = elements v \<and>
          (\<forall>i < Size v. Vector_index v' i = Vector_index v i)))"
proof -
  obtain xs k where v: "v = mk xs k"
    using wf_mk_conv [OF assms] by blast
  show ?thesis
    unfolding v
    by (auto simp: Reserve_mk_small Reserve_mk_grow Vector_index_mk)
qed

theorem Reserve_capacity_witness:
  "wf spare_vector \<and> 2 \<le> Capacity spare_vector \<and> Capacity spare_vector < 5 \<and>
   allocates movable 5 \<and>
   Reserve movable spare_vector 2 = Inr (spare_vector, []) \<and>
   (\<exists>v' es. Reserve movable spare_vector 5 = Inr (v', es) \<and> wf v' \<and>
      Capacity v' = 5 \<and> Size v' = 2 \<and> elements v' = [7, 8] \<and>
      Vector_index v' 0 = Inr (7, []) \<and> Vector_index v' 1 = Inr (8, []))"
proof -
  have w: "wf spare_vector"
    by (simp add: wf_def spare_vector_def)
  have c: "Capacity spare_vector = 3" "Size spare_vector = 2" "elements spare_vector = [7, 8]"
    "Vector_index spare_vector 0 = Inr (7, [])" "Vector_index spare_vector 1 = Inr (8, [])"
    by (simp_all add: Capacity_def Size_def elements_def spare_vector_def Vector_index_def
        RawMemory_index_def load_def ok_def)
  have a: "allocates movable 5"
    by (simp add: allocates_movable)
  show ?thesis
    using w c a Reserve_capacity [OF w, of 2 movable] Reserve_capacity [OF w, of 5 movable]
    by (auto simp: numeral_2_eq_2 less_Suc_eq)
qed

section \<open>C6: growth of the capacity\<close>

text \<open>Claim C6. On every container that satisfies the class invariant: when
  \<^verbatim>\<open>Size() == Capacity()\<close> and the allocation of the grown block is granted in full (its
  byte count is a \<^verbatim>\<open>size_t\<close> value and \<^verbatim>\<open>operator new\<close> returns), \<^verbatim>\<open>EmplaceBack\<close>, both
  overloads of \<^verbatim>\<open>PushBack\<close> and \<^verbatim>\<open>Emplace\<close> at a position in \<open>[begin, end]\<close> return a
  container whose capacity is
  exactly \<open>1\<close> if the old capacity was \<open>0\<close> and exactly twice the old capacity otherwise;
  when \<^verbatim>\<open>Size() < Capacity()\<close>, \<^verbatim>\<open>EmplaceBack\<close> and \<^verbatim>\<open>PushBack\<close> invoke one constructor
  only, the block afterwards is the old block with the new value in slot \<^verbatim>\<open>Size()\<close>,
  and the capacity is unchanged.\<close>

theorem capacity_growth:
  assumes "wf v"
  shows "(Size v = Capacity v \<and>
          allocates et (if Capacity v = 0 then 1 else 2 * Capacity v) \<longrightarrow>
            (\<exists>v' p es. EmplaceBack et v a = Inr ((v', p), es) \<and>
               Capacity v' = (if Capacity v = 0 then 1 else 2 * Capacity v)) \<and>
            (\<exists>v' es. PushBack et v x = Inr (v', es) \<and>
               Capacity v' = (if Capacity v = 0 then 1 else 2 * Capacity v)) \<and>
            (\<exists>v' es. PushBack_rvalue et v x = Inr (v', es) \<and>
               Capacity v' = (if Capacity v = 0 then 1 else 2 * Capacity v)) \<and>
            (pos \<le> Size v \<longrightarrow>
               (\<exists>v' p es. Emplace et v pos a = Inr ((v', p), es) \<and>
                  Capacity v' = (if Capacity v = 0 then 1 else 2 * Capacity v)))) \<and>
         (Size v < Capacity v \<longrightarrow>
            (\<exists>v'. EmplaceBack et v a = Inr ((v', Size v), [init_event a]) \<and>
               buffer_m (data_m v') = (buffer_m (data_m v))[Size v := Some (init_value a)] \<and>
               Capacity v' = Capacity v \<and> Size v' = Size v + 1) \<and>
            (\<exists>v'. PushBack et v x = Inr (v', [CopyConstructed]) \<and>
               buffer_m (data_m v') = (buffer_m (data_m v))[Size v := Some x] \<and>
               Capacity v' = Capacity v \<and> Size v' = Size v + 1) \<and>
            (\<exists>v'. PushBack_rvalue et v x = Inr (v', [MoveConstructed]) \<and>
               buffer_m (data_m v') = (buffer_m (data_m v))[Size v := Some x] \<and>
               Capacity v' = Capacity v \<and> Size v' = Size v + 1))"
proof -
  obtain xs k where v: "v = mk xs k"
    using assms by (rule wf_cases)
  have cap: "length xs + 1 + (length xs - 1) = (if length xs = 0 then 1 else 2 * length xs)"
    by simp
  define c where "c = (if Capacity v = 0 then 1 else 2 * Capacity v)"
  show ?thesis
  proof (cases k)
    case 0
    have c: "c = (if xs = [] then 1 else length xs * 2)"
      by (simp add: c_def v 0)
    have "\<not> Size v < Capacity v"
      by (simp add: v 0)
    moreover have "Size v = Capacity v"
      by (simp add: v 0)
    moreover
    { assume "allocates et c"
      then have alloc: "allocates et (if xs = [] then 1 else length xs * 2)"
        by (simp only: c)
      have eb: "\<exists>v' p es. EmplaceBack et v b = Inr ((v', p), es) \<and> Capacity v' = c" for b
        using cap by (simp add: c_def v 0 EmplaceBack_mk_full [OF alloc])
      have em: "\<exists>v' p es. Emplace et v pos a = Inr ((v', p), es) \<and> Capacity v' = c"
        if "pos \<le> Size v"
        using cap that by (simp add: c_def v 0 Emplace_mk_full_at [OF _ alloc])
      have "\<exists>v' es. PushBack et v x = Inr (v', es) \<and> Capacity v' = c"
        using eb [of "CopyOf x"] PushBack_EmplaceBack(1) [of et v x] by metis
      moreover have "\<exists>v' es. PushBack_rvalue et v x = Inr (v', es) \<and> Capacity v' = c"
        using eb [of "MoveOf x"] PushBack_EmplaceBack(2) [of et v x] by metis
      ultimately have "(\<exists>v' p es. EmplaceBack et v a = Inr ((v', p), es) \<and> Capacity v' = c) \<and>
          (\<exists>v' es. PushBack et v x = Inr (v', es) \<and> Capacity v' = c) \<and>
          (\<exists>v' es. PushBack_rvalue et v x = Inr (v', es) \<and> Capacity v' = c) \<and>
          (pos \<le> Size v \<longrightarrow>
             (\<exists>v' p es. Emplace et v pos a = Inr ((v', p), es) \<and> Capacity v' = c))"
        using eb [of a] em by blast }
    ultimately show ?thesis
      unfolding c_def [symmetric] by blast
  next
    case (Suc k')
    have eb: "\<exists>v'. EmplaceBack et v b = Inr ((v', Size v), [init_event b]) \<and>
        buffer_m (data_m v') = (buffer_m (data_m v))[Size v := Some (init_value b)] \<and>
        Capacity v' = Capacity v \<and> Size v' = Size v + 1" for b
      by (simp add: v Suc EmplaceBack_mk_spare)
    have "\<exists>v'. PushBack et v x = Inr (v', [CopyConstructed]) \<and>
        buffer_m (data_m v') = (buffer_m (data_m v))[Size v := Some x] \<and>
        Capacity v' = Capacity v \<and> Size v' = Size v + 1"
      using eb [of "CopyOf x"] PushBack_EmplaceBack(1) [of et v x] by fastforce
    moreover have "\<exists>v'. PushBack_rvalue et v x = Inr (v', [MoveConstructed]) \<and>
        buffer_m (data_m v') = (buffer_m (data_m v))[Size v := Some x] \<and>
        Capacity v' = Capacity v \<and> Size v' = Size v + 1"
      using eb [of "MoveOf x"] PushBack_EmplaceBack(2) [of et v x] by fastforce
    moreover have "Size v \<noteq> Capacity v"
      by (simp add: v Suc)
    ultimately show ?thesis
      using eb [of a] by blast
  qed
qed

theorem capacity_growth_witness:
  "wf full_vector \<and> Size full_vector = Capacity full_vector \<and> 1 \<le> Size full_vector \<and>
   allocates movable (if Capacity full_vector = 0 then 1 else 2 * Capacity full_vector) \<and>
   (\<exists>v' p es. EmplaceBack movable full_vector (CopyOf 9) = Inr ((v', p), es) \<and>
      Capacity v' = 4) \<and>
   (\<exists>v' es. PushBack movable full_vector 9 = Inr (v', es) \<and> Capacity v' = 4) \<and>
   (\<exists>v' p es. Emplace movable full_vector 1 (CopyOf 9) = Inr ((v', p), es) \<and>
      Capacity v' = 4) \<and>
   wf spare_vector \<and> Size spare_vector < Capacity spare_vector \<and>
   (\<exists>v'. PushBack movable spare_vector 9 = Inr (v', [CopyConstructed]) \<and>
      buffer_m (data_m v') = [Some 7, Some 8, Some 9] \<and> Capacity v' = 3 \<and> Size v' = 3)"
proof -
  have b: "buffer_m (data_m spare_vector) = [Some 7, Some 8, None]"
    by (simp add: spare_vector_def)
  show ?thesis
    using capacity_growth [OF example_facts(5), of movable "CopyOf 9" 9 1]
      capacity_growth [OF example_facts(1), of movable "CopyOf 9" 9 1]
    by (simp add: example_facts b allocates_movable)
qed

section \<open>C7: Erase\<close>

text \<open>Claim C7. On every container that satisfies the class invariant and every position
  \<open>pos\<close> below \<^verbatim>\<open>Size()\<close>, \<^verbatim>\<open>Erase(pos)\<close> returns; it move-assigns once for each element
  after \<open>pos\<close> and then destroys one object, the last slot of the old sequence, which is
  raw memory afterwards; the size is one less and the capacity the same; the elements
  before \<open>pos\<close> are unchanged and every later element is one slot to the left; the
  position returned is \<open>pos\<close>, where the element that followed the erased one now is,
  and it is the end position when the last element was erased.\<close>

theorem Erase_shifts_left:
  assumes "wf v" and "pos < Size v"
  shows "\<exists>v'. Erase et v pos =
           Inr ((v', pos), replicate (Size v - pos - 1) MoveAssigned @ [Destroyed]) \<and>
         wf v' \<and> Size v' = Size v - 1 \<and> Capacity v' = Capacity v \<and>
         elements v' = take pos (elements v) @ drop (Suc pos) (elements v) \<and>
         (\<forall>i < pos. Vector_index v' i = Vector_index v i) \<and>
         (\<forall>i. pos \<le> i \<and> i < Size v' \<longrightarrow> Vector_index v' i = Vector_index v (Suc i)) \<and>
         buffer_m (data_m v') ! (Size v - 1) = None \<and>
         (pos = Size v - 1 \<longrightarrow> pos = Size v')"
proof -
  obtain xs k where v: "v = mk xs k"
    using assms(1) by (rule wf_cases)
  have pos: "pos < length xs"
    using assms(2) by (simp add: v)
  let ?ys = "take pos xs @ drop (Suc pos) xs"
  have len: "length ?ys = length xs - 1"
    using pos by simp
  have raw: "buffer_m (data_m (mk ?ys (Suc k))) ! (length xs - 1) = None"
    using pos by (simp add: nth_append)
  have idx1: "Vector_index (mk ?ys (Suc k)) i = Vector_index (mk xs k) i" if "i < pos" for i
    using that pos by (simp add: Vector_index_mk nth_append)
  have idx2: "Vector_index (mk ?ys (Suc k)) i = Vector_index (mk xs k) (Suc i)"
    if "pos \<le> i" "i < length xs - 1" for i
    using that pos by (simp add: Vector_index_mk nth_append)
  show ?thesis
    unfolding v Erase_mk_at [OF pos]
    using pos raw idx1 idx2 by auto
qed

theorem Erase_shifts_left_witness:
  "wf spare_vector \<and> 0 < Size spare_vector \<and>
   (\<exists>v'. Erase movable spare_vector 0 = Inr ((v', 0), [MoveAssigned, Destroyed]) \<and>
      wf v' \<and> Size v' = 1 \<and> Capacity v' = 3 \<and> elements v' = [8] \<and>
      Vector_index v' 0 = Inr (8, []))"
proof -
  have i: "Vector_index spare_vector (Suc 0) = Inr (8, [])"
    by (simp add: spare_vector_mk Vector_index_mk)
  have p: "0 < Size spare_vector"
    by (simp add: example_facts)
  show ?thesis
    using Erase_shifts_left [OF example_facts(1) p, of movable]
    by (auto simp: example_facts i)
qed

section \<open>C8: Insert, then Erase\<close>

text \<open>Claim C8, evaluated where it fails. On the container with elements \<open>[7, 8]\<close> and a
  block of three slots, \<^verbatim>\<open>Insert\<close> at the end position followed by \<^verbatim>\<open>Erase\<close> at the
  returned position does not return (the insertion is undefined behaviour), while at
  position \<open>1\<close> the same two calls restore the container.\<close>

theorem insert_then_erase_at_end_of_spare_vector:
  "insert_then_erase movable spare_vector 2 9 = Inl UndefinedBehaviour \<and>
   insert_then_erase movable spare_vector 1 9 =
     Inr ((spare_vector, 1),
          [CopyConstructed, MoveConstructed, MoveAssigned, Destroyed,
           MoveAssigned, Destroyed])"
  by code_simp

section \<open>C9: the size never exceeds the capacity\<close>

text \<open>Claim C9. In every state a client can reach from no objects by the public operations
  (the constructors, copy and move assignment, \<^verbatim>\<open>Swap\<close>, \<^verbatim>\<open>Reserve\<close>, \<^verbatim>\<open>Resize\<close>,
  \<^verbatim>\<open>PushBack\<close>, \<^verbatim>\<open>EmplaceBack\<close>, \<^verbatim>\<open>Insert\<close>, \<^verbatim>\<open>Emplace\<close>, \<^verbatim>\<open>Erase\<close>, \<^verbatim>\<open>PopBack\<close>
  and the destructor), every container has \<^verbatim>\<open>Size() <= Capacity()\<close>.\<close>

theorem size_le_capacity_reachable:
  "reachable et st \<Longrightarrow> st a = Some v \<Longrightarrow> Size v \<le> Capacity v"
  using reachable_all_fit [of et st]
  by (auto simp: all_fit_def fits_def Size_def Capacity_def)

theorem size_le_capacity_reachable_witness:
  "reachable movable ((\<lambda>a. None)(0 \<mapsto> short_vector)) \<and>
   ((\<lambda>a. None)(0 \<mapsto> short_vector)) 0 = Some short_vector \<and>
   Size short_vector \<le> Capacity short_vector"
proof -
  have r0: "reachable movable (\<lambda>a. None)"
    by (rule reachable.no_objects)
  have r1: "reachable movable ((\<lambda>a. None)(0 \<mapsto> Vector_default))"
    by (rule reachable.constructed_default [OF r0]) simp
  have pb: "PushBack movable Vector_default 5 = Inr (short_vector, [CopyConstructed])"
    by code_simp
  have "reachable movable (((\<lambda>a. None)(0 \<mapsto> Vector_default))(0 \<mapsto> short_vector))"
    by (rule reachable.pushed_back [OF r1 _ pb]) simp
  then have r2: "reachable movable ((\<lambda>a. None)(0 \<mapsto> short_vector))"
    by simp
  show ?thesis
    using r2 size_le_capacity_reachable [OF r2, of 0 short_vector] by simp
qed

section \<open>C10: copy self-assignment\<close>

text \<open>Claim C10. Copy assignment of a container to itself returns the store as it was,
  so the size, the capacity and the block of the container are unchanged, and it invokes
  no operation of \<^verbatim>\<open>T\<close>.\<close>

theorem copy_self_assignment:
  "Vector_assign_copy et st a a = Inr (st, [])"
  by (simp add: Vector_assign_copy_def ok_def)

end
